theory Spec2Isabelle
  imports Main "HOL-Library.Word"
begin

unbundle bit_operations_syntax

section \<open>Data: bytes, strings, errors\<close>

text \<open>
  The script \<^verbatim>\<open>add-to-steam.py\<close> works on two kinds of sequences. A Python \<^verbatim>\<open>bytes\<close>
  value is a list of octets; a Python \<^verbatim>\<open>str\<close> is a list of Unicode code points (numbers
  below \<^verbatim>\<open>0x110000\<close>, lone surrogates included: \<^verbatim>\<open>sys.argv\<close> holds them for
  arguments that are not valid UTF-8). Python integers are unbounded and modelled as \<open>int\<close>.
\<close>

type_synonym byte = "8 word"
type_synonym bytes = "byte list"
type_synonym pystr = "nat list"

text \<open>
  The two exceptions the modelled code can raise: \<^verbatim>\<open>str.encode\<close> on a lone surrogate,
  and \<^verbatim>\<open>struct.pack("<I", v)\<close> on a value outside \<^verbatim>\<open>0 .. 2**32 - 1\<close>.
\<close>

datatype py_error = UnicodeEncodeError | StructError

text \<open>A string or bytes literal of the source, written with ASCII characters.\<close>

definition lit :: "string \<Rightarrow> pystr" where
  "lit s = map of_char s"

definition blit :: "string \<Rightarrow> bytes" where
  "blit s = map of_char s"

subsection \<open>\<^verbatim>\<open>str.encode()\<close>: strict UTF-8\<close>

definition utf8_char :: "nat \<Rightarrow> py_error + bytes" where
  "utf8_char c =
     (if c < 0x80 then Inr [of_nat c]
      else if c < 0x800 then Inr [of_nat (0xC0 + c div 0x40), of_nat (0x80 + c mod 0x40)]
      else if 0xD800 \<le> c \<and> c \<le> 0xDFFF then Inl UnicodeEncodeError
      else if c < 0x10000 then
        Inr [of_nat (0xE0 + c div 0x1000), of_nat (0x80 + c div 0x40 mod 0x40),
             of_nat (0x80 + c mod 0x40)]
      else
        Inr [of_nat (0xF0 + c div 0x40000), of_nat (0x80 + c div 0x1000 mod 0x40),
             of_nat (0x80 + c div 0x40 mod 0x40), of_nat (0x80 + c mod 0x40)])"

fun encode :: "pystr \<Rightarrow> py_error + bytes" where
  "encode [] = Inr []"
| "encode (c # cs) =
     (case utf8_char c of
        Inl e \<Rightarrow> Inl e
      | Inr b \<Rightarrow> (case encode cs of Inl e \<Rightarrow> Inl e | Inr bs \<Rightarrow> Inr (b @ bs)))"

subsection \<open>\<^verbatim>\<open>str(n)\<close> and \<^verbatim>\<open>int(b)\<close>\<close>

fun dec_digits :: "nat \<Rightarrow> nat list" where
  "dec_digits n = (if n < 10 then [n] else dec_digits (n div 10) @ [n mod 10])"

declare dec_digits.simps [simp del]

definition str :: "int \<Rightarrow> pystr" where
  "str i = (if i < 0 then 0x2D # map (\<lambda>d. 0x30 + d) (dec_digits (nat (- i)))
            else map (\<lambda>d. 0x30 + d) (dec_digits (nat i)))"

text \<open>
  \<^verbatim>\<open>int(b)\<close> is only ever applied to a group matched by \<^verbatim>\<open>\d+\<close>, a non-empty run of
  ASCII digits; on those it is the positional value. (The interpreter's configurable limit on
  the number of digits of such a conversion, 4300 by default in recent versions, is a setting
  of the interpreter and not part of the model.)
\<close>

definition int_of_bytes :: "bytes \<Rightarrow> int" where
  "int_of_bytes ds = foldl (\<lambda>acc d. 10 * acc + (uint d - 0x30)) 0 ds"

section \<open>\<^verbatim>\<open>get_latest_index\<close>: the regular-expression scan\<close>

text \<open>
  \<^verbatim>\<open>re.findall(rb"\x00(\d+)\x00", data)\<close>. In a bytes pattern \<^verbatim>\<open>\d\<close> is an ASCII digit.
  A match at a position is a zero byte, the longest run of digits (at least one), and a zero
  byte; giving digits back cannot help, because the byte after a shorter run is a digit and
  not zero. \<open>match_here\<close> returns the group and the input behind the match.
\<close>

definition is_digit :: "byte \<Rightarrow> bool" where
  "is_digit b \<longleftrightarrow> 0x30 \<le> b \<and> b \<le> 0x39"

definition match_here :: "bytes \<Rightarrow> (bytes \<times> bytes) option" where
  "match_here xs =
     (case xs of
        [] \<Rightarrow> None
      | x # ys \<Rightarrow>
          if x \<noteq> 0 then None
          else (let ds = takeWhile is_digit ys in
                if ds = [] then None
                else (case dropWhile is_digit ys of
                        [] \<Rightarrow> None
                      | z # rest \<Rightarrow> if z = 0 then Some (ds, rest) else None)))"

text \<open>
  \<^verbatim>\<open>findall\<close> scans from left to right and returns the groups of the matches it finds. The
  matches do not overlap: after a match the scan goes on behind the match's closing zero byte;
  where there is no match it moves one byte on.
\<close>

function findall :: "bytes \<Rightarrow> bytes list" where
  "findall [] = []"
| "findall (x # ys) =
     (case match_here (x # ys) of
        Some (g, rest) \<Rightarrow> g # findall rest
      | None \<Rightarrow> findall ys)"
  by pat_completeness auto
termination
proof (relation "measure length")
  show "wf (measure length)" by simp
next
  fix x :: byte and ys p g rest
  assume "match_here (x # ys) = Some p" and "(g, rest) = p"
  then obtain z where "dropWhile is_digit ys = z # rest"
    by (auto simp: match_here_def Let_def split: if_splits list.splits)
  then have "Suc (length rest) = length (dropWhile is_digit ys)"
    by simp
  also have "\<dots> \<le> length ys"
    by (rule length_dropWhile_le)
  finally show "(rest, x # ys) \<in> measure length"
    by simp
qed simp

definition get_latest_index :: "bytes \<Rightarrow> int" where
  "get_latest_index data =
     (let matches = findall data in
      if matches \<noteq> [] then int_of_bytes (last matches) else - 1)"

text \<open>Line 123 of the script: \<^verbatim>\<open>index = get_latest_index(data) + 1\<close>.\<close>

definition next_index :: "bytes \<Rightarrow> int" where
  "next_index data = get_latest_index data + 1"

section \<open>\<^verbatim>\<open>make_entry\<close>: the record encoder\<close>

text \<open>Sequencing of computations that may raise: the first exception wins.\<close>

definition and_then :: "py_error + 'a \<Rightarrow> ('a \<Rightarrow> py_error + 'b) \<Rightarrow> py_error + 'b" where
  "and_then m f = (case m of Inl e \<Rightarrow> Inl e | Inr x \<Rightarrow> f x)"

text \<open>\<^verbatim>\<open>struct.pack("<I", v)\<close>: four bytes, least significant first.\<close>

definition struct_pack_I :: "int \<Rightarrow> py_error + bytes" where
  "struct_pack_I v =
     (if 0 \<le> v \<and> v < 2 ^ 32
      then Inr [of_int v, of_int (v div 2 ^ 8), of_int (v div 2 ^ 16), of_int (v div 2 ^ 24)]
      else Inl StructError)"

text \<open>
  \<^verbatim>\<open>make_entry(index, appid, appname, exe, startdir)\<close> reads the global \<^verbatim>\<open>config_dir\<close>,
  here its first argument. The operands are evaluated in the order of the source.
\<close>

definition make_entry :: "pystr \<Rightarrow> int \<Rightarrow> int \<Rightarrow> pystr \<Rightarrow> pystr \<Rightarrow> pystr \<Rightarrow> py_error + bytes" where
  "make_entry config_dir index appid appname exe startdir =
     (let x00 = [0]; x01 = [1]; x02 = [2]; x08 = [8]; b0 = [] in
      and_then (encode (str index)) (\<lambda>index_b.
      let b1 = b0 @ x00 @ index_b @ x00 in
      and_then (struct_pack_I appid) (\<lambda>appid_b.
      let b2 = b1 @ x02 @ blit ''appid'' @ x00 @ appid_b in
      and_then (encode appname) (\<lambda>appname_b.
      let b3 = b2 @ x01 @ blit ''appname'' @ x00 @ appname_b @ x00 in
      and_then (encode exe) (\<lambda>exe_b.
      let b4 = b3 @ x01 @ blit ''exe'' @ x00 @ exe_b @ x00 in
      and_then (encode startdir) (\<lambda>startdir_b.
      let b5 = b4 @ x01 @ blit ''StartDir'' @ x00 @ startdir_b @ x00 in
      and_then (encode config_dir) (\<lambda>config_dir_b.
      and_then (encode (str appid)) (\<lambda>appid_s.
      let b6 = b5 @ (x01 @ blit ''icon'' @ x00 @ config_dir_b @ blit ''/grid/'' @ appid_s
                      @ blit ''_icon.ico'' @ x00) in
      Inr (b6 @ x08)))))))))"

section \<open>The application identifier\<close>

text \<open>
  \<^verbatim>\<open>zlib.crc32\<close> is the CRC-32 of ISO 3309 and RFC 1952: reflected polynomial
  \<^verbatim>\<open>0xEDB88320\<close>, register started at \<^verbatim>\<open>0xFFFFFFFF\<close> and complemented at the end; it
  returns an unsigned Python integer. It is a library function, given here in the bit-by-bit
  form of its definition.
\<close>

definition crc_shift :: "32 word \<Rightarrow> 32 word" where
  "crc_shift c = (if bit c 0 then drop_bit 1 c XOR 0xEDB88320 else drop_bit 1 c)"

definition crc_update :: "32 word \<Rightarrow> byte \<Rightarrow> 32 word" where
  "crc_update c b = (crc_shift ^^ 8) (c XOR ucast b)"

definition crc32 :: "bytes \<Rightarrow> int" where
  "crc32 bs = uint (NOT (foldl crc_update 0xFFFFFFFF bs))"

text \<open>
  Line 162: \<^verbatim>\<open>appid = 0x80000000 | zlib.crc32((APPNAME + EXE).encode("utf-8")) & 0xFFFFFFFF\<close>.
  In Python \<^verbatim>\<open>&\<close> binds tighter than \<^verbatim>\<open>|\<close>.
\<close>

definition appid :: "pystr \<Rightarrow> pystr \<Rightarrow> py_error + int" where
  "appid appname exe =
     and_then (encode (appname @ exe)) (\<lambda>b. Inr (0x80000000 OR (crc32 b AND 0xFFFFFFFF)))"

definition APPNAME :: pystr where
  "APPNAME = lit ''Minecraft Splitscreen''"

section \<open>The script from line 101 to line 173\<close>

text \<open>
  What the script sees and changes of the file system: the content of \<^verbatim>\<open>shortcuts.vdf\<close>
  (\<open>None\<close> when the path does not exist), whether \<^verbatim>\<open>config_dir\<close> exists, and the log of
  the \<^verbatim>\<open>f.write\<close> calls made on the file, oldest first. Failures of the operating system
  (permissions, a full disk) are not modelled.
\<close>

record world =
  vdf :: "bytes option"
  config_dir_exists :: bool
  writes :: "bytes list"

text \<open>\<^verbatim>\<open>with open(shortcuts_file, "wb") as f: f.write(b)\<close>\<close>

definition write_file :: "bytes \<Rightarrow> world \<Rightarrow> world" where
  "write_file b w = w\<lparr>vdf := Some b, writes := writes w @ [b]\<rparr>"

definition skeleton :: bytes where
  "skeleton = [0] @ blit ''shortcuts'' @ [0, 8, 8]"

text \<open>
  Lines 101 to 109: create the file when it is missing, then read it. The read that follows
  the creation returns what was just written.
\<close>

definition open_shortcuts :: "world \<Rightarrow> world \<times> bytes" where
  "open_shortcuts w =
     (case vdf w of
        None \<Rightarrow> (write_file skeleton (w\<lparr>config_dir_exists := True\<rparr>), skeleton)
      | Some data \<Rightarrow> (w, data))"

definition endswith :: "bytes \<Rightarrow> bytes \<Rightarrow> bool" where
  "endswith data suffix \<longleftrightarrow>
     length suffix \<le> length data \<and> drop (length data - length suffix) data = suffix"

text \<open>Line 167: \<^verbatim>\<open>new_data = data[:-2] + entry + b"\x08\x08"\<close>\<close>

definition new_data :: "bytes \<Rightarrow> bytes \<Rightarrow> bytes" where
  "new_data data entry = take (length data - 2) data @ entry @ [8, 8]"

text \<open>
  How the modelled part of the script ends: the shortcut was added (with its index and
  identifier, as printed) and the script goes on to the artwork; the structure of the file was
  not recognised and the script called \<^verbatim>\<open>exit(1)\<close>; or an exception was raised and not caught.
\<close>

datatype outcome = Added int int | NotRecognized | Raised py_error

definition exit_status :: "outcome \<Rightarrow> nat option" where
  "exit_status out = (case out of Added i a \<Rightarrow> None | NotRecognized \<Rightarrow> Some 1 | Raised e \<Rightarrow> Some 1)"

text \<open>Lines 166 to 173: the insertion before the last two bytes, or the refusal.\<close>

definition write_new_data :: "bytes \<Rightarrow> bytes \<Rightarrow> int \<Rightarrow> int \<Rightarrow> world \<Rightarrow> world \<times> outcome" where
  "write_new_data data entry index a w =
     (if endswith data [8, 8]
      then (write_file (new_data data entry) w, Added index a)
      else (w, NotRecognized))"

definition run :: "pystr \<Rightarrow> pystr \<Rightarrow> pystr \<Rightarrow> world \<Rightarrow> world \<times> outcome" where
  "run config_dir EXE STARTDIR w =
     (let (w1, data) = open_shortcuts w;
          index = get_latest_index data + 1
      in case appid APPNAME EXE of
           Inl e \<Rightarrow> (w1, Raised e)
         | Inr a \<Rightarrow>
             (case make_entry config_dir index a APPNAME EXE STARTDIR of
                Inl e \<Rightarrow> (w1, Raised e)
              | Inr entry \<Rightarrow> write_new_data data entry index a w1))"

section \<open>The properties as the specification words them\<close>

subsection \<open>Occurrences of the index pattern\<close>

text \<open>
  The pattern "zero byte, one or more decimal digits, zero byte" occurs in \<open>data\<close> at
  position \<open>p\<close> with the digits \<open>g\<close>.
\<close>

definition pattern_at :: "bytes \<Rightarrow> nat \<Rightarrow> bytes \<Rightarrow> bool" where
  "pattern_at data p g \<longleftrightarrow>
     g \<noteq> [] \<and> (\<forall>d\<in>set g. is_digit d) \<and>
     (\<exists>pre suf. data = pre @ [0] @ g @ [0] @ suf \<and> length pre = p)"

text \<open>
  All occurrences, overlapping ones included, by increasing position; \<open>occs p xs\<close> numbers
  the positions of \<open>xs\<close> from \<open>p\<close>.
\<close>

fun occs :: "nat \<Rightarrow> bytes \<Rightarrow> (nat \<times> bytes) list" where
  "occs p [] = []"
| "occs p (x # ys) =
     (case match_here (x # ys) of Some (g, rest) \<Rightarrow> [(p, g)] | None \<Rightarrow> []) @ occs (Suc p) ys"

definition occurrences :: "bytes \<Rightarrow> (nat \<times> bytes) list" where
  "occurrences data = occs 0 data"

text \<open>
  The next index as the specification words it: zero when the pattern does not occur, else
  one more than the number written in the rightmost occurrence.
\<close>

definition spec_next_index :: "bytes \<Rightarrow> int" where
  "spec_next_index data =
     (if occurrences data = [] then 0
      else int_of_bytes (snd (last (occurrences data))) + 1)"

text \<open>
  The occurrences that a scan from left to right keeps when matches may not overlap: one
  that starts before position \<open>k\<close>, the end of the match kept last, is dropped.
\<close>

fun select :: "nat \<Rightarrow> (nat \<times> bytes) list \<Rightarrow> (nat \<times> bytes) list" where
  "select k [] = []"
| "select k ((p, g) # os) =
     (if p < k then select k os else (p, g) # select (p + length g + 2) os)"

subsection \<open>Fields that do not read as an index marker\<close>

text \<open>
  The scan of \<open>get_latest_index\<close> does not know where the fields of a record are. The
  fields of a record are plain when none of them holds a match of the pattern: the three
  string values between their zero bytes, the four bytes of the identifier behind the zero
  byte that ends the field name, and the directory at the head of the icon path.
\<close>

definition plain_fields :: "pystr \<Rightarrow> int \<Rightarrow> pystr \<Rightarrow> pystr \<Rightarrow> pystr \<Rightarrow> bool" where
  "plain_fields config_dir a appname exe startdir \<longleftrightarrow>
     (case struct_pack_I a of Inl e \<Rightarrow> False | Inr u \<Rightarrow> findall ([0] @ u) = []) \<and>
     (case encode appname of Inl e \<Rightarrow> False | Inr u \<Rightarrow> findall ([0] @ u @ [0]) = []) \<and>
     (case encode exe of Inl e \<Rightarrow> False | Inr u \<Rightarrow> findall ([0] @ u @ [0]) = []) \<and>
     (case encode startdir of Inl e \<Rightarrow> False | Inr u \<Rightarrow> findall ([0] @ u @ [0]) = []) \<and>
     (case encode config_dir of Inl e \<Rightarrow> False | Inr u \<Rightarrow> findall ([0] @ u) = [])"

subsection \<open>The layout of a record\<close>

definition ascii_decimal :: "nat \<Rightarrow> bytes" where
  "ascii_decimal n = map (\<lambda>d. 0x30 + of_nat d) (dec_digits n)"

definition le32 :: "32 word \<Rightarrow> bytes" where
  "le32 v = [ucast v, ucast (drop_bit 8 v), ucast (drop_bit 16 v), ucast (drop_bit 24 v)]"

definition icon_path :: "pystr \<Rightarrow> int \<Rightarrow> pystr" where
  "icon_path prefix a = prefix @ lit ''/grid/'' @ str a @ lit ''_icon.ico''"

definition record_layout :: "nat \<Rightarrow> 32 word \<Rightarrow> bytes \<Rightarrow> bytes \<Rightarrow> bytes \<Rightarrow> bytes \<Rightarrow> bytes" where
  "record_layout i a name_u exe_u dir_u icon_u =
     [0x00] @ ascii_decimal i @ [0x00]
     @ [0x02] @ blit ''appid'' @ [0x00] @ le32 a
     @ [0x01] @ blit ''appname'' @ [0x00] @ name_u @ [0x00]
     @ [0x01] @ blit ''exe'' @ [0x00] @ exe_u @ [0x00]
     @ [0x01] @ blit ''StartDir'' @ [0x00] @ dir_u @ [0x00]
     @ [0x01] @ blit ''icon'' @ [0x00] @ icon_u @ [0x00]
     @ [0x08]"

section \<open>The scan: matches and where it splits\<close>

lemma is_digit_nonzero: "is_digit d \<Longrightarrow> d \<noteq> 0"
  by (auto simp: is_digit_def)

lemma match_here_SomeD:
  assumes "match_here xs = Some (g, rest)"
  shows "xs = 0 # g @ 0 # rest \<and> g \<noteq> [] \<and> (\<forall>d\<in>set g. is_digit d)"
proof -
  from assms obtain ys where xs: "xs = 0 # ys"
    by (cases xs) (auto simp: match_here_def split: if_splits)
  from assms xs have g: "g = takeWhile is_digit ys" and ne: "g \<noteq> []"
    and dw: "dropWhile is_digit ys = 0 # rest"
    by (auto simp: match_here_def Let_def split: if_splits list.splits)
  have "ys = takeWhile is_digit ys @ dropWhile is_digit ys"
    by simp
  with g dw have "ys = g @ 0 # rest"
    by simp
  moreover have "\<forall>d\<in>set g. is_digit d"
    unfolding g by (auto dest: set_takeWhileD)
  ultimately show ?thesis
    using xs ne by simp
qed

lemma match_here_SomeI:
  assumes "g \<noteq> []" and "\<forall>d\<in>set g. is_digit d"
  shows "match_here (0 # g @ 0 # rest) = Some (g, rest)"
proof -
  have nz: "\<not> is_digit 0"
    by (simp add: is_digit_def)
  have "takeWhile is_digit (g @ 0 # rest) = g"
    using assms(2) nz by simp
  moreover have "dropWhile is_digit (g @ 0 # rest) = 0 # rest"
    using assms(2) nz by simp
  ultimately show ?thesis
    using assms(1) by (simp add: match_here_def)
qed

lemma match_here_Some_iff:
  "match_here xs = Some (g, rest) \<longleftrightarrow>
     xs = 0 # g @ 0 # rest \<and> g \<noteq> [] \<and> (\<forall>d\<in>set g. is_digit d)"
  using match_here_SomeD match_here_SomeI by blast

declare findall.simps(2) [simp del]

lemma match_here_nonzero: "x \<noteq> 0 \<Longrightarrow> match_here (x # ys) = None"
  by (simp add: match_here_def)

lemma findall_nonzero: "x \<noteq> 0 \<Longrightarrow> findall (x # ys) = findall ys"
  by (simp add: findall.simps(2) match_here_nonzero)

lemma findall_marker:
  "g \<noteq> [] \<Longrightarrow> \<forall>d\<in>set g. is_digit d \<Longrightarrow> findall (0 # g @ 0 # rest) = g # findall rest"
  by (simp add: findall.simps(2) match_here_SomeI)

lemma findall_no_zero: "0 \<notin> set xs \<Longrightarrow> findall (xs @ ys) = findall ys"
  by (induction xs) (auto simp: findall_nonzero)

lemma findall_no_zero_Nil: "0 \<notin> set xs \<Longrightarrow> findall xs = []"
  using findall_no_zero [of xs "[]"] by simp

text \<open>A byte that is neither zero nor a digit is in no match: the scan splits there.\<close>

lemma match_here_append_Some:
  "match_here xs = Some (g, rest) \<Longrightarrow> match_here (xs @ ys) = Some (g, rest @ ys)"
  by (auto simp: match_here_Some_iff)

lemma match_here_barrier_None:
  assumes "match_here xs = None" and "xs \<noteq> []" and "y \<noteq> 0" and "\<not> is_digit y"
  shows "match_here (xs @ y # ys) = None"
proof (rule ccontr)
  assume "match_here (xs @ y # ys) \<noteq> None"
  then obtain g rest where "match_here (xs @ y # ys) = Some (g, rest)"
    by auto
  then have eq: "xs @ (y # ys) = (0 # g) @ (0 # rest)" and g: "g \<noteq> []" "\<forall>d\<in>set g. is_digit d"
    by (auto simp: match_here_Some_iff)
  from eq [unfolded append_eq_append_conv2]
  obtain us where "(xs = (0 # g) @ us \<and> us @ y # ys = 0 # rest) \<or> (xs @ us = 0 # g \<and> y # ys = us @ 0 # rest)"
    by blast
  then show False
  proof
    assume a: "xs = (0 # g) @ us \<and> us @ y # ys = 0 # rest"
    with assms(3) obtain us' where "us = 0 # us'"
      by (cases us) auto
    with a have "xs = 0 # g @ 0 # us'" by simp
    with g have "match_here xs = Some (g, us')"
      by (simp add: match_here_SomeI)
    with assms(1) show False by simp
  next
    assume a: "xs @ us = 0 # g \<and> y # ys = us @ 0 # rest"
    with assms(3) obtain us' where "us = y # us'"
      by (cases us) auto
    with a assms(2) have "y \<in> set g"
      by (cases xs) auto
    with g assms(4) show False by blast
  qed
qed

lemma findall_barrier:
  assumes "y \<noteq> 0" and "\<not> is_digit y"
  shows "findall (xs @ y # ys) = findall xs @ findall ys"
proof (induction xs rule: findall.induct)
  case 1
  show ?case using assms by (simp add: findall_nonzero)
next
  case (2 x xs)
  show ?case
  proof (cases "match_here (x # xs)")
    case None
    then have "match_here ((x # xs) @ y # ys) = None"
      using assms by (intro match_here_barrier_None) auto
    with None 2 show ?thesis by (simp add: findall.simps(2))
  next
    case (Some p)
    obtain g rest where p: "p = (g, rest)" by (cases p)
    with Some have "match_here ((x # xs) @ y # ys) = Some (g, rest @ y # ys)"
      by (intro match_here_append_Some) simp
    with Some p 2 show ?thesis by (simp add: findall.simps(2))
  qed
qed

text \<open>Before a zero byte the scan splits as well, unless a digit stands before it.\<close>

lemma match_here_zero_None:
  assumes "match_here xs = None" and "xs \<noteq> []" and "\<not> is_digit (last xs)"
  shows "match_here (xs @ 0 # ys) = None"
proof (rule ccontr)
  assume "match_here (xs @ 0 # ys) \<noteq> None"
  then obtain g rest where "match_here (xs @ 0 # ys) = Some (g, rest)"
    by auto
  then have eq: "xs @ (0 # ys) = (0 # g) @ (0 # rest)" and g: "g \<noteq> []" "\<forall>d\<in>set g. is_digit d"
    by (auto simp: match_here_Some_iff)
  from eq [unfolded append_eq_append_conv2]
  obtain us where "(xs = (0 # g) @ us \<and> us @ 0 # ys = 0 # rest) \<or> (xs @ us = 0 # g \<and> 0 # ys = us @ 0 # rest)"
    by blast
  then show False
  proof
    assume a: "xs = (0 # g) @ us \<and> us @ 0 # ys = 0 # rest"
    show False
    proof (cases us)
      case Nil
      with a g have "last xs \<in> set g" by simp
      with g assms(3) show False by blast
    next
      case (Cons u us')
      with a have "xs = 0 # g @ 0 # us'" by simp
      with g have "match_here xs = Some (g, us')"
        by (simp add: match_here_SomeI)
      with assms(1) show False by simp
    qed
  next
    assume a: "xs @ us = 0 # g \<and> 0 # ys = us @ 0 # rest"
    show False
    proof (cases us)
      case Nil
      with a assms(2) have "xs = 0 # g" by simp
      with g have "last xs \<in> set g" by simp
      with g assms(3) show False by blast
    next
      case (Cons u us')
      with a have "u = 0" by simp
      with Cons a assms(2) have "0 \<in> set g"
        by (cases xs) auto
      with g show False by (auto dest: is_digit_nonzero)
    qed
  qed
qed

lemma findall_zero_join:
  assumes "xs = [] \<or> \<not> is_digit (last xs)"
  shows "findall (xs @ 0 # ys) = findall xs @ findall (0 # ys)"
  using assms
proof (induction xs rule: findall.induct)
  case 1
  show ?case by simp
next
  case (2 x xs)
  then have nd: "\<not> is_digit (last (x # xs))" by simp
  show ?case
  proof (cases "match_here (x # xs)")
    case None
    then have m: "match_here ((x # xs) @ 0 # ys) = None"
      using nd by (intro match_here_zero_None) auto
    have "xs = [] \<or> \<not> is_digit (last xs)"
      using nd by (cases xs) auto
    with None 2 m show ?thesis by (simp add: findall.simps(2))
  next
    case (Some p)
    obtain g rest where p: "p = (g, rest)" by (cases p)
    with Some have m: "match_here ((x # xs) @ 0 # ys) = Some (g, rest @ 0 # ys)"
      by (intro match_here_append_Some) simp
    from Some p have "x # xs = 0 # g @ 0 # rest"
      by (simp add: match_here_Some_iff)
    then have "rest = [] \<or> \<not> is_digit (last rest)"
      using nd by (cases "rest = []") auto
    with Some p 2 m show ?thesis by (simp add: findall.simps(2))
  qed
qed

section \<open>Encoding strings and numbers\<close>

lemma and_then_Inr [simp]: "and_then (Inr x) f = f x"
  by (simp add: and_then_def)

lemma and_then_Inl [simp]: "and_then (Inl e) f = Inl e"
  by (simp add: and_then_def)

lemma encode_append:
  "encode (s @ t) = and_then (encode s) (\<lambda>a. and_then (encode t) (\<lambda>b. Inr (a @ b)))"
  by (induction s) (auto simp: and_then_def split: sum.splits)

lemma encode_append_Inr:
  "encode s = Inr a \<Longrightarrow> encode t = Inr b \<Longrightarrow> encode (s @ t) = Inr (a @ b)"
  by (simp add: encode_append)

lemma encode_ascii: "\<forall>c\<in>set s. c < 0x80 \<Longrightarrow> encode s = Inr (map of_nat s)"
  by (induction s) (auto simp: utf8_char_def)

lemma dec_digits_lt10: "d \<in> set (dec_digits n) \<Longrightarrow> d < 10"
proof (induction n rule: dec_digits.induct)
  case (1 n)
  then show ?case
    by (subst (asm) (2) dec_digits.simps) (auto split: if_splits)
qed

lemma dec_digits_nonempty: "dec_digits n \<noteq> []"
  by (subst dec_digits.simps) simp

lemma str_ascii: "c \<in> set (str i) \<Longrightarrow> c < 0x80"
  by (auto simp: str_def dest!: dec_digits_lt10 split: if_splits)

lemma encode_str: "encode (str i) = Inr (map of_nat (str i))"
  by (rule encode_ascii) (auto dest: str_ascii)

lemma lit_ascii: "c \<in> set (lit s) \<Longrightarrow> c < 0x100"
  by (auto simp: lit_def)

text \<open>The decimal digits of a number are digits, and \<^verbatim>\<open>int\<close> reads them back.\<close>

lemma digit_byte: "d < 10 \<Longrightarrow> is_digit (0x30 + of_nat d)"
proof -
  assume "d < 10"
  then have "d \<in> {0, 1, 2, 3, 4, 5, 6, 7, 8, 9}" by auto
  then show ?thesis by (auto simp: is_digit_def)
qed

lemma digit_byte_uint: "d < 10 \<Longrightarrow> uint (0x30 + of_nat d :: byte) = 0x30 + int d"
proof -
  assume "d < 10"
  then have "d \<in> {0, 1, 2, 3, 4, 5, 6, 7, 8, 9}" by auto
  then show ?thesis by auto
qed

lemma str_nonneg_digits:
  "0 \<le> i \<Longrightarrow> b \<in> set (map of_nat (str i)) \<Longrightarrow> is_digit b"
  by (auto simp: str_def dest!: dec_digits_lt10 intro: digit_byte)

lemma str_nonempty: "str i \<noteq> []"
  by (simp add: str_def dec_digits_nonempty)

lemma int_of_bytes_snoc: "int_of_bytes (ds @ [d]) = 10 * int_of_bytes ds + (uint d - 0x30)"
  by (simp add: int_of_bytes_def)

lemma int_of_bytes_dec_digits:
  "int_of_bytes (map (\<lambda>d. of_nat (0x30 + d)) (dec_digits n)) = int n"
proof (induction n rule: dec_digits.induct)
  case (1 n)
  show ?case
  proof (cases "n < 10")
    case True
    then show ?thesis
      by (subst dec_digits.simps) (simp add: int_of_bytes_def digit_byte_uint)
  next
    case False
    have "n mod 10 < 10" by simp
    then have u: "uint (0x30 + of_nat (n mod 10) :: byte) = 0x30 + int (n mod 10)"
      by (rule digit_byte_uint)
    from False 1 have "int_of_bytes (map (\<lambda>d. of_nat (0x30 + d)) (dec_digits (n div 10))) = int (n div 10)"
      by simp
    moreover have "10 * int (n div 10) + int (n mod 10) = int n"
      by presburger
    ultimately show ?thesis
      using False u by (subst dec_digits.simps) (simp add: int_of_bytes_snoc)
  qed
qed

lemma int_of_bytes_str: "0 \<le> i \<Longrightarrow> int_of_bytes (map of_nat (str i)) = i"
  using int_of_bytes_dec_digits [of "nat i"] by (simp add: str_def comp_def)

lemma encode_append_InrD:
  assumes "encode (s @ t) = Inr u"
  obtains a b where "encode s = Inr a" and "encode t = Inr b" and "u = a @ b"
  using assms by (auto simp: encode_append and_then_def split: sum.splits)

lemma encode_lit_grid: "encode (lit ''/grid/'') = Inr (blit ''/grid/'')"
  by (simp add: lit_def blit_def utf8_char_def)

lemma encode_lit_icon: "encode (lit ''_icon.ico'') = Inr (blit ''_icon.ico'')"
  by (simp add: lit_def blit_def utf8_char_def)

lemma ascii_decimal_str: "0 \<le> i \<Longrightarrow> map of_nat (str i) = ascii_decimal (nat i)"
  by (simp add: str_def ascii_decimal_def comp_def)

lemma ucast_drop_bit_of_int:
  "(ucast (drop_bit k (word_of_int a :: 32 word)) :: byte) = of_int (a div 2 ^ k)" if "k \<le> 24"
proof (rule bit_word_eqI)
  fix n assume "n < LENGTH(8)"
  with that show "bit (ucast (drop_bit k (word_of_int a :: 32 word)) :: byte) n = bit (of_int (a div 2 ^ k) :: byte) n"
    by (simp add: bit_simps flip: drop_bit_eq_div)
qed

lemma struct_pack_I_le32:
  "0 \<le> a \<Longrightarrow> a < 2 ^ 32 \<Longrightarrow> struct_pack_I a = Inr (le32 (word_of_int a))"
  using ucast_drop_bit_of_int [of 0 a] ucast_drop_bit_of_int [of 8 a]
    ucast_drop_bit_of_int [of 16 a] ucast_drop_bit_of_int [of 24 a]
  by (simp add: struct_pack_I_def le32_def)

lemma icon_path_encode:
  assumes "encode (icon_path prefix a) = Inr iu"
  obtains cu where "encode prefix = Inr cu"
    and "iu = cu @ blit ''/grid/'' @ map of_nat (str a) @ blit ''_icon.ico''"
proof -
  from assms obtain cu r where c: "encode prefix = Inr cu"
    and r: "encode (lit ''/grid/'' @ str a @ lit ''_icon.ico'') = Inr r" and iu: "iu = cu @ r"
    unfolding icon_path_def by (rule encode_append_InrD)
  have "encode (lit ''/grid/'' @ str a @ lit ''_icon.ico'')
      = Inr (blit ''/grid/'' @ map of_nat (str a) @ blit ''_icon.ico'')"
    by (intro encode_append_Inr encode_lit_grid encode_lit_icon encode_str)
  with r iu c that show thesis by simp
qed

lemma make_entry_bytes:
  assumes "struct_pack_I a = Inr au" and "encode name = Inr nu" and "encode exe = Inr eu"
    and "encode sd = Inr su" and "encode cfg = Inr cu"
  shows "make_entry cfg i a name exe sd =
     Inr ([0] @ map of_nat (str i) @ [0]
          @ [2] @ blit ''appid'' @ [0] @ au
          @ [1] @ blit ''appname'' @ [0] @ nu @ [0]
          @ [1] @ blit ''exe'' @ [0] @ eu @ [0]
          @ [1] @ blit ''StartDir'' @ [0] @ su @ [0]
          @ [1] @ blit ''icon'' @ [0]
              @ (cu @ blit ''/grid/'' @ map of_nat (str a) @ blit ''_icon.ico'') @ [0]
          @ [8])"
  using assms by (simp add: make_entry_def encode_str)

section \<open>The insertion\<close>

lemma endswith_88: "endswith data [8, 8] \<longleftrightarrow> 2 \<le> length data \<and> drop (length data - 2) data = [8, 8]"
  by (simp add: endswith_def numeral_2_eq_2)

lemma endswith_new_data: "endswith (new_data B R) [8, 8]"
  by (simp add: endswith_88 new_data_def)

lemma endswith_skeleton: "endswith skeleton [8, 8]"
  by (simp add: endswith_88 skeleton_def blit_def)

lemma new_data_split:
  "endswith B [8, 8] \<Longrightarrow> new_data B R = take (length B - 2) B @ R @ drop (length B - 2) B"
  by (simp add: endswith_88 new_data_def)

text \<open>
  C1. When the blob \<open>B\<close> ends with the two terminator bytes, the insertion writes
  \<open>B[:-2] + R + B[-2:]\<close>: the bytes of \<open>B\<close> before the terminator stay where they are, \<open>R\<close>
  follows them, then the terminator comes again, and nothing else changes.
\<close>

theorem insert_before_terminator:
  assumes "endswith B [8, 8]"
  shows "new_data B R = take (length B - 2) B @ R @ drop (length B - 2) B
       \<and> take (length B - 2) (new_data B R) = take (length B - 2) B
       \<and> take (length R) (drop (length B - 2) (new_data B R)) = R
       \<and> drop (length B - 2 + length R) (new_data B R) = [8, 8]
       \<and> length (new_data B R) = length B + length R
       \<and> write_new_data B R i a w = (write_file (new_data B R) w, Added i a)
       \<and> vdf (fst (write_new_data B R i a w)) = Some (new_data B R)"
proof -
  from assms have len: "2 \<le> length B"
    by (simp add: endswith_88)
  have 1: "new_data B R = take (length B - 2) B @ R @ drop (length B - 2) B"
    using assms by (rule new_data_split)
  have 2: "take (length B - 2) (new_data B R) = take (length B - 2) B"
    using len by (simp add: new_data_def)
  have 3: "take (length R) (drop (length B - 2) (new_data B R)) = R"
    using len by (simp add: new_data_def)
  have 4: "drop (length B - 2 + length R) (new_data B R) = [8, 8]"
    using len by (simp add: new_data_def)
  have 5: "length (new_data B R) = length B + length R"
    using len by (simp add: new_data_def)
  have 6: "write_new_data B R i a w = (write_file (new_data B R) w, Added i a)"
    using assms by (simp add: write_new_data_def)
  have 7: "vdf (fst (write_new_data B R i a w)) = Some (new_data B R)"
    by (simp add: 6 write_file_def)
  from 1 2 3 4 5 6 7 show ?thesis by blast
qed

theorem insert_before_terminator_witness:
  "endswith [0, 1, 8, 8] [8, 8]
   \<and> new_data [0, 1, 8, 8] [5, 6, 7] = [0, 1, 5, 6, 7, 8, 8]
   \<and> write_new_data [0, 1, 8, 8] [5, 6, 7] 0 1 \<lparr>vdf = Some [0, 1, 8, 8], config_dir_exists = True, writes = []\<rparr>
       = (\<lparr>vdf = Some [0, 1, 5, 6, 7, 8, 8], config_dir_exists = True, writes = [[0, 1, 5, 6, 7, 8, 8]]\<rparr>,
          Added 0 1)"
proof -
  have h: "endswith [0, 1, 8, 8] [8, 8]"
    by (simp add: endswith_88)
  show ?thesis
    using h insert_before_terminator [OF h, of "[5, 6, 7]" 0 1
        "\<lparr>vdf = Some [0, 1, 8, 8], config_dir_exists = True, writes = []\<rparr>"]
    by (simp add: write_file_def)
qed

lemma run_unrecognized:
  assumes "vdf w = Some data" and "\<not> endswith data [8, 8]"
  shows "fst (run c e s w) = w" and "exit_status (snd (run c e s w)) = Some 1"
  using assms
  by (auto simp: run_def Let_def open_shortcuts_def write_new_data_def exit_status_def split: sum.splits)

text \<open>
  C2. When the blob does not end with the two bytes \<open>0x08 0x08\<close>, the insertion refuses:
  nothing is written, the world is as before, and the script stops with exit status 1. A run
  of the script on a file with such a content leaves the file as it is and ends with exit
  status 1.
\<close>

theorem unrecognized_structure_no_write:
  assumes "\<not> endswith data [8, 8]"
  shows "write_new_data data entry i a w = (w, NotRecognized)
       \<and> exit_status NotRecognized = Some 1
       \<and> (vdf w = Some data \<longrightarrow>
            fst (run c e s w) = w \<and> exit_status (snd (run c e s w)) = Some 1)"
  using assms run_unrecognized [of w data c e s]
  by (simp add: write_new_data_def exit_status_def)

theorem unrecognized_structure_no_write_witness:
  "\<not> endswith [0, 1, 8] [8, 8]
   \<and> write_new_data [0, 1, 8] [5] 0 1 \<lparr>vdf = Some [0, 1, 8], config_dir_exists = True, writes = []\<rparr>
       = (\<lparr>vdf = Some [0, 1, 8], config_dir_exists = True, writes = []\<rparr>, NotRecognized)
   \<and> fst (run [] [] [] \<lparr>vdf = Some [0, 1, 8], config_dir_exists = True, writes = []\<rparr>)
       = \<lparr>vdf = Some [0, 1, 8], config_dir_exists = True, writes = []\<rparr>
   \<and> exit_status (snd (run [] [] [] \<lparr>vdf = Some [0, 1, 8], config_dir_exists = True, writes = []\<rparr>))
       = Some 1"
proof -
  have h: "\<not> endswith [0, 1, 8] [8, 8]"
    by (simp add: endswith_88)
  show ?thesis
    using h unrecognized_structure_no_write [OF h, of "[5]" 0 1
        "\<lparr>vdf = Some [0, 1, 8], config_dir_exists = True, writes = []\<rparr>" "[]" "[]" "[]"]
    by simp
qed

section \<open>The terminator is kept\<close>

lemma run_writes:
  "\<exists>bs. writes (fst (run c e s w)) = writes w @ bs \<and> (\<forall>b\<in>set bs. endswith b [8, 8])"
  by (auto simp: run_def Let_def open_shortcuts_def write_new_data_def write_file_def endswith_new_data
      endswith_skeleton split: option.splits sum.splits)

lemma run_file_terminated:
  assumes "vdf w = None \<or> snd (run c e s w) = Added i a"
  shows "\<exists>d. vdf (fst (run c e s w)) = Some d \<and> endswith d [8, 8]"
  using assms
  by (auto simp: run_def Let_def open_shortcuts_def write_new_data_def write_file_def endswith_new_data
      endswith_skeleton split: option.splits sum.splits if_splits)

lemma run_recognizes:
  assumes "vdf w = Some d" and "endswith d [8, 8]"
  shows "snd (run c e s w) \<noteq> NotRecognized"
  using assms
  by (auto simp: run_def Let_def open_shortcuts_def write_new_data_def split: sum.splits)

text \<open>
  C9. The skeleton ends with \<open>0x08 0x08\<close>, and so does every result of the insertion.
  Hence every content a run writes to the file ends with the terminator; after a run that
  created the file or added a shortcut the file ends with it; and a later run, with whatever
  arguments, on such a file does not end in the refusal of the structure.
\<close>

theorem terminator_invariant:
  "endswith skeleton [8, 8]
   \<and> endswith (new_data B R) [8, 8]
   \<and> (\<exists>bs. writes (fst (run c e s w)) = writes w @ bs \<and> (\<forall>b\<in>set bs. endswith b [8, 8]))
   \<and> (vdf w = None \<or> snd (run c e s w) = Added i a \<longrightarrow>
        (\<exists>d. vdf (fst (run c e s w)) = Some d \<and> endswith d [8, 8])
        \<and> snd (run c' e' s' (fst (run c e s w))) \<noteq> NotRecognized)"
proof -
  have "snd (run c' e' s' (fst (run c e s w))) \<noteq> NotRecognized"
    if "vdf w = None \<or> snd (run c e s w) = Added i a"
  proof -
    from that obtain d where "vdf (fst (run c e s w)) = Some d" and "endswith d [8, 8]"
      using run_file_terminated by blast
    then show ?thesis by (rule run_recognizes)
  qed
  then show ?thesis
    using endswith_skeleton endswith_new_data run_writes run_file_terminated by blast
qed

theorem terminator_invariant_witness:
  "vdf \<lparr>vdf = None, config_dir_exists = False, writes = []\<rparr> = None
   \<and> snd (run [] [] [] (fst (run [] [] [] \<lparr>vdf = None, config_dir_exists = False, writes = []\<rparr>)))
       \<noteq> NotRecognized"
  using terminator_invariant [where w = "\<lparr>vdf = None, config_dir_exists = False, writes = []\<rparr>"
      and c = "[]" and e = "[]" and s = "[]" and c' = "[]" and e' = "[]" and s' = "[]"]
  by simp


section \<open>The record encoder\<close>

lemma make_entry_record_layout:
  assumes "0 \<le> i" and "0 \<le> a" and "a < 2 ^ 32"
    and "encode name = Inr name_u" and "encode exe = Inr exe_u" and "encode dir = Inr dir_u"
    and "encode (icon_path prefix a) = Inr icon_u"
  shows "make_entry prefix i a name exe dir =
           Inr (record_layout (nat i) (word_of_int a) name_u exe_u dir_u icon_u)"
proof -
  from assms(7) obtain cu where c: "encode prefix = Inr cu"
    and icon: "icon_u = cu @ blit ''/grid/'' @ map of_nat (str a) @ blit ''_icon.ico''"
    by (rule icon_path_encode)
  have p: "struct_pack_I a = Inr (le32 (word_of_int a))"
    using assms(2,3) by (rule struct_pack_I_le32)
  have "make_entry prefix i a name exe dir =
     Inr ([0] @ map of_nat (str i) @ [0]
          @ [2] @ blit ''appid'' @ [0] @ le32 (word_of_int a)
          @ [1] @ blit ''appname'' @ [0] @ name_u @ [0]
          @ [1] @ blit ''exe'' @ [0] @ exe_u @ [0]
          @ [1] @ blit ''StartDir'' @ [0] @ dir_u @ [0]
          @ [1] @ blit ''icon'' @ [0]
              @ (cu @ blit ''/grid/'' @ map of_nat (str a) @ blit ''_icon.ico'') @ [0]
          @ [8])"
    using p assms(4,5,6) c by (rule make_entry_bytes)
  also have "map of_nat (str i) = ascii_decimal (nat i)"
    using assms(1) by (rule ascii_decimal_str)
  finally show ?thesis
    unfolding record_layout_def icon by simp
qed

text \<open>
  C3. For an index \<open>i \<ge> 0\<close>, an identifier \<open>a\<close> of 32 bits and strings that have a UTF-8
  encoding, \<open>make_entry\<close> returns exactly the layout of the specification: the index marker,
  the field \<open>appid\<close> with the four bytes of \<open>a\<close> in little-endian order, the string fields
  \<open>appname\<close>, \<open>exe\<close>, \<open>StartDir\<close> and \<open>icon\<close> in this order, the last one holding the
  encoding of \<open>prefix + "/grid/" + decimal a + "_icon.ico"\<close>, and the closing byte \<open>0x08\<close>.
\<close>

theorem make_entry_layout:
  assumes "0 \<le> i" and "0 \<le> a" and "a < 2 ^ 32"
    and "encode name = Inr name_u" and "encode exe = Inr exe_u" and "encode dir = Inr dir_u"
    and "encode (icon_path prefix a) = Inr icon_u"
  shows "make_entry prefix i a name exe dir =
           Inr (record_layout (nat i) (word_of_int a) name_u exe_u dir_u icon_u)"
  using assms by (rule make_entry_record_layout)

theorem make_entry_layout_witness:
  "(0::int) \<le> 4 \<and> (0::int) \<le> 2147483697 \<and> (2147483697::int) < 2 ^ 32
   \<and> encode [0x4D, 0xE9] = Inr [0x4D, 0xC3, 0xA9]
   \<and> encode (lit ''/r'') = Inr (blit ''/r'')
   \<and> encode (lit ''/d'') = Inr (blit ''/d'')
   \<and> encode (icon_path (lit ''/c'') 2147483697) = Inr (blit ''/c/grid/2147483697_icon.ico'')
   \<and> make_entry (lit ''/c'') 4 2147483697 [0x4D, 0xE9] (lit ''/r'') (lit ''/d'') =
        Inr (record_layout 4 0x80000031 [0x4D, 0xC3, 0xA9] (blit ''/r'') (blit ''/d'')
               (blit ''/c/grid/2147483697_icon.ico''))"
proof -
  have h1: "(0::int) \<le> 4" and h2: "(0::int) \<le> 2147483697" and h3: "(2147483697::int) < 2 ^ 32"
    by simp_all
  have h4: "encode [0x4D, 0xE9] = Inr [0x4D, 0xC3, 0xA9]"
    by (simp add: utf8_char_def)
  have h5: "encode (lit ''/r'') = Inr (blit ''/r'')"
    by (simp add: lit_def blit_def utf8_char_def)
  have h6: "encode (lit ''/d'') = Inr (blit ''/d'')"
    by (simp add: lit_def blit_def utf8_char_def)
  have h7: "encode (icon_path (lit ''/c'') 2147483697) = Inr (blit ''/c/grid/2147483697_icon.ico'')"
    by (simp add: icon_path_def str_def dec_digits.simps lit_def blit_def utf8_char_def)
  show ?thesis
    using h1 h2 h3 h4 h5 h6 h7 make_entry_layout [OF h1 h2 h3 h4 h5 h6 h7]
    by simp
qed

section \<open>The identifier\<close>

lemma crc_update_unfold:
  "crc_update c b =
     crc_shift (crc_shift (crc_shift (crc_shift (crc_shift (crc_shift (crc_shift (crc_shift
       (c XOR ucast b))))))))"
  by (simp add: crc_update_def eval_nat_numeral)

text \<open>The check value of the CRC-32 of zlib.\<close>

lemma crc32_check_value: "crc32 (blit ''123456789'') = 0xCBF43926"
  by (simp add: crc32_def blit_def crc_update_unfold crc_shift_def)

lemma appid_example: "appid APPNAME (lit ''/r'') = Inr 0xC8F9E060"
  by (simp add: appid_def APPNAME_def lit_def utf8_char_def crc32_def crc_update_unfold
      crc_shift_def)

lemma crc32_range: "0 \<le> crc32 b \<and> crc32 b < 2 ^ 32"
proof -
  have "uint (NOT (foldl crc_update 0xFFFFFFFF b)) < 2 ^ LENGTH(32)"
    by (rule uint_lt2p)
  then show ?thesis by (simp add: crc32_def)
qed

lemma mask32: "(0xFFFFFFFF :: int) = mask 32"
  by (simp add: mask_eq_exp_minus_1)

lemma crc32_masked: "crc32 b AND 0xFFFFFFFF = crc32 b"
  using crc32_range [of b] unfolding mask32
  by (simp flip: take_bit_eq_mask add: take_bit_int_eq_self)

lemma appid_value_props:
  fixes c :: int
  assumes "0 \<le> c" and "c < 2 ^ 32"
  shows "bit (0x80000000 OR c) 31" and "0x80000000 \<le> 0x80000000 OR c" and "0x80000000 OR c < 2 ^ 32"
proof -
  have e: "(0x80000000 :: int) = 2 ^ 31" by simp
  show "bit (0x80000000 OR c) 31"
    unfolding e by (simp add: bit_or_iff bit_exp_iff)
  show "0x80000000 \<le> 0x80000000 OR c"
    using assms(1) by (simp add: or_greater_eq)
  show "0x80000000 OR c < 2 ^ 32"
    using assms by (intro OR_upper) simp_all
qed

text \<open>
  C4. The identifier is the CRC-32 of the UTF-8 bytes of \<open>name + exe\<close>, masked to 32 bits
  and combined by bitwise or with \<open>0x80000000\<close>. It is a function of the two strings alone;
  its value lies below \<open>2 ^ 32\<close> and has bit 31 set.
\<close>

theorem appid_crc32:
  "appid name exe =
     and_then (encode (name @ exe)) (\<lambda>b. Inr ((crc32 b AND 0xFFFFFFFF) OR 0x80000000))
   \<and> (appid name exe = Inr v \<longrightarrow> bit v 31 \<and> 0x80000000 \<le> v \<and> v < 2 ^ 32)
   \<and> (name' = name \<and> exe' = exe \<longrightarrow> appid name' exe' = appid name exe)"
proof -
  have 1: "appid name exe =
     and_then (encode (name @ exe)) (\<lambda>b. Inr ((crc32 b AND 0xFFFFFFFF) OR 0x80000000))"
    by (simp add: appid_def or.commute)
  have 2: "bit v 31 \<and> 0x80000000 \<le> v \<and> v < 2 ^ 32" if "appid name exe = Inr v"
  proof -
    from that obtain b where "v = 0x80000000 OR (crc32 b AND 0xFFFFFFFF)"
      by (auto simp: appid_def and_then_def split: sum.splits)
    then have "v = 0x80000000 OR crc32 b"
      by (simp only: crc32_masked)
    then show ?thesis
      using appid_value_props [of "crc32 b"] crc32_range [of b] by simp
  qed
  from 1 2 show ?thesis by blast
qed

theorem appid_crc32_witness:
  "appid APPNAME (lit ''/r'') = Inr 0xC8F9E060
   \<and> bit (0xC8F9E060 :: int) 31 \<and> (0x80000000 :: int) \<le> 0xC8F9E060
   \<and> (0xC8F9E060 :: int) < 2 ^ 32"
  using appid_example appid_crc32 [of APPNAME "lit ''/r''" "0xC8F9E060"] by simp

section \<open>Opening the file\<close>

lemma skeleton_bytes:
  "skeleton = [0x00, 0x73, 0x68, 0x6F, 0x72, 0x74, 0x63, 0x75, 0x74, 0x73, 0x00, 0x08, 0x08]"
  by (simp add: skeleton_def blit_def)

text \<open>
  C8, as the claim words it, fails: the word "shortcuts" has nine letters, so the skeleton
  that is written when the file is missing has 13 bytes; its byte 10 is the zero byte, its
  bytes 11 and 12 are the terminator, and there is no byte 13.
\<close>

theorem skeleton_offsets_counterexample:
  "length (snd (open_shortcuts \<lparr>vdf = None, config_dir_exists = False, writes = []\<rparr>)) = 13
   \<and> snd (open_shortcuts \<lparr>vdf = None, config_dir_exists = False, writes = []\<rparr>) ! 10 = 0x00
   \<and> snd (open_shortcuts \<lparr>vdf = None, config_dir_exists = False, writes = []\<rparr>) ! 11 = 0x08
   \<and> snd (open_shortcuts \<lparr>vdf = None, config_dir_exists = False, writes = []\<rparr>) ! 11 \<noteq> 0x00
   \<and> \<not> 13 < length (snd (open_shortcuts \<lparr>vdf = None, config_dir_exists = False, writes = []\<rparr>))"
  by (simp add: open_shortcuts_def skeleton_bytes)

text \<open>
  C8, amended. When the file does not exist, opening creates the directory and writes, in one
  write call, the skeleton of 13 bytes: byte 0 is \<open>0x00\<close>, bytes 1 to 9 are the ASCII
  letters of "shortcuts", byte 10 is \<open>0x00\<close>, bytes 11 and 12 are \<open>0x08 0x08\<close>; the bytes
  read are the skeleton. When the file exists, its content is returned and nothing changes.
\<close>

theorem open_shortcuts_skeleton:
  "(vdf w = None \<longrightarrow>
      open_shortcuts w =
        (w\<lparr>config_dir_exists := True, vdf := Some skeleton, writes := writes w @ [skeleton]\<rparr>,
         skeleton))
   \<and> (vdf w = Some d \<longrightarrow> open_shortcuts w = (w, d))
   \<and> length skeleton = 13
   \<and> skeleton ! 0 = 0x00
   \<and> take 9 (drop 1 skeleton) = blit ''shortcuts''
   \<and> skeleton ! 10 = 0x00
   \<and> skeleton ! 11 = 0x08
   \<and> skeleton ! 12 = 0x08"
  by (simp add: open_shortcuts_def write_file_def skeleton_bytes blit_def)

theorem open_shortcuts_skeleton_witness:
  "vdf \<lparr>vdf = None, config_dir_exists = False, writes = []\<rparr> = None
   \<and> open_shortcuts \<lparr>vdf = None, config_dir_exists = False, writes = []\<rparr> =
       (\<lparr>vdf = Some skeleton, config_dir_exists = True, writes = [skeleton]\<rparr>, skeleton)
   \<and> vdf \<lparr>vdf = Some [1, 2], config_dir_exists = True, writes = []\<rparr> = Some [1, 2]
   \<and> open_shortcuts \<lparr>vdf = Some [1, 2], config_dir_exists = True, writes = []\<rparr> =
       (\<lparr>vdf = Some [1, 2], config_dir_exists = True, writes = []\<rparr>, [1, 2])"
  using open_shortcuts_skeleton [of "\<lparr>vdf = None, config_dir_exists = False, writes = []\<rparr>" "[]"]
    open_shortcuts_skeleton [of "\<lparr>vdf = Some [1, 2], config_dir_exists = True, writes = []\<rparr>" "[1, 2]"]
  by simp

section \<open>The scan over a record\<close>

lemma findall_groups:
  "g \<in> set (findall xs) \<Longrightarrow> g \<noteq> [] \<and> (\<forall>d\<in>set g. is_digit d)"
proof (induction xs rule: findall.induct)
  case 1
  then show ?case by simp
next
  case (2 x ys)
  show ?case
  proof (cases "match_here (x # ys)")
    case None
    with 2 show ?thesis by (simp add: findall.simps(2))
  next
    case (Some p)
    obtain h rest where p: "p = (h, rest)" by (cases p)
    with Some have "h \<noteq> [] \<and> (\<forall>d\<in>set h. is_digit d)"
      by (simp add: match_here_Some_iff)
    with 2 Some p show ?thesis by (auto simp: findall.simps(2))
  qed
qed

lemma int_of_bytes_nonneg: "\<forall>d\<in>set ds. is_digit d \<Longrightarrow> 0 \<le> int_of_bytes ds"
proof (induction ds rule: rev_induct)
  case Nil
  show ?case by (simp add: int_of_bytes_def)
next
  case (snoc d ds)
  then have "is_digit d" by simp
  then have "0x30 \<le> uint d"
    by (simp add: is_digit_def word_le_def)
  with snoc show ?case by (simp add: int_of_bytes_snoc)
qed

lemma next_index_nonneg: "0 \<le> next_index data"
proof (cases "findall data = []")
  case True
  then show ?thesis by (simp add: next_index_def get_latest_index_def)
next
  case False
  then have "last (findall data) \<in> set (findall data)" by simp
  then have "0 \<le> int_of_bytes (last (findall data))"
    by (intro int_of_bytes_nonneg) (auto dest: findall_groups)
  with False show ?thesis by (simp add: next_index_def get_latest_index_def)
qed

text \<open>
  A field name without zero byte, then some bytes \<open>w\<close>, then a byte that is neither zero
  nor a digit: the scan sees the matches of \<open>w\<close> and goes on behind.
\<close>

lemma findall_field:
  assumes "0 \<notin> set key" and "y \<noteq> 0" and "\<not> is_digit y"
  shows "findall (key @ w @ y # rest) = findall w @ findall rest"
proof -
  have "findall ((key @ w) @ y # rest) = findall (key @ w) @ findall rest"
    using assms(2,3) by (rule findall_barrier)
  also have "findall (key @ w) = findall w"
    using assms(1) by (rule findall_no_zero)
  finally show ?thesis by simp
qed

lemma str_bytes_nonzero: "(0::byte) \<notin> set (map of_nat (str a))"
proof
  assume "(0::byte) \<in> set (map of_nat (str a))"
  then obtain c where c: "c \<in> set (str a)" and z: "(of_nat c :: byte) = 0" by auto
  from c have "c = 0x2D \<or> (\<exists>d<10. c = 0x30 + d)"
    by (auto simp: str_def dest!: dec_digits_lt10 split: if_splits)
  then show False
  proof
    assume "c = 0x2D" with z show False by simp
  next
    assume "\<exists>d<10. c = 0x30 + d"
    then obtain d where "d < 10" and "c = 0x30 + d" by blast
    with z digit_byte [of d] show False
      by (auto dest: is_digit_nonzero)
  qed
qed

lemma barrier_bytes:
  "(1::byte) \<noteq> 0" "\<not> is_digit 1" "(8::byte) \<noteq> 0" "\<not> is_digit 8" "(0x2F::byte) \<noteq> 0" "\<not> is_digit 0x2F"
  by (simp_all add: is_digit_def word_le_nat_alt)

text \<open>
  What the scan finds in a record with index \<open>i \<ge> 0\<close>: the index, then whatever reads as
  a marker in the fields.
\<close>

lemma findall_entry_bytes:
  assumes "0 \<le> i"
  shows "findall (([0] @ map of_nat (str i) @ [0]
          @ [2] @ blit ''appid'' @ [0] @ au
          @ [1] @ blit ''appname'' @ [0] @ nu @ [0]
          @ [1] @ blit ''exe'' @ [0] @ eu @ [0]
          @ [1] @ blit ''StartDir'' @ [0] @ su @ [0]
          @ [1] @ blit ''icon'' @ [0]
              @ (cu @ blit ''/grid/'' @ map of_nat (str a) @ blit ''_icon.ico'') @ [0]
          @ [8]) @ rest)
       = [map of_nat (str i)] @ findall ([0] @ au) @ findall ([0] @ nu @ [0])
         @ findall ([0] @ eu @ [0]) @ findall ([0] @ su @ [0]) @ findall ([0] @ cu)
         @ findall rest"
proof -
  define idx :: bytes where "idx = map of_nat (str i)"
  define ad :: bytes where "ad = map of_nat (str a)"
  define t6 where "t6 = (blit ''grid/'' @ ad @ blit ''_icon.ico'') @ [0] @ 8 # rest"
  define t5 where "t5 = blit ''icon'' @ ([0] @ cu) @ 0x2F # t6"
  define t4 where "t4 = blit ''StartDir'' @ ([0] @ su @ [0]) @ 1 # t5"
  define t3 where "t3 = blit ''exe'' @ ([0] @ eu @ [0]) @ 1 # t4"
  define t2 where "t2 = blit ''appname'' @ ([0] @ nu @ [0]) @ 1 # t3"
  define t1 where "t1 = (2 # blit ''appid'') @ ([0] @ au) @ 1 # t2"
  have idx: "idx \<noteq> []" "\<forall>d\<in>set idx. is_digit d"
    using assms str_nonneg_digits [of i] by (auto simp: idx_def str_nonempty)
  have k6: "0 \<notin> set (blit ''grid/'' @ ad @ blit ''_icon.ico'')"
    using str_bytes_nonzero [of a] by (simp add: ad_def blit_def)
  have "findall t6 = findall [0] @ findall rest"
    unfolding t6_def using k6 barrier_bytes(3,4) by (rule findall_field)
  then have f6: "findall t6 = findall rest"
    by (simp add: findall.simps(2) match_here_def)
  have f5: "findall t5 = findall ([0] @ cu) @ findall t6"
    unfolding t5_def by (rule findall_field) (simp_all add: blit_def barrier_bytes)
  have f4: "findall t4 = findall ([0] @ su @ [0]) @ findall t5"
    unfolding t4_def by (rule findall_field) (simp_all add: blit_def barrier_bytes)
  have f3: "findall t3 = findall ([0] @ eu @ [0]) @ findall t4"
    unfolding t3_def by (rule findall_field) (simp_all add: blit_def barrier_bytes)
  have f2: "findall t2 = findall ([0] @ nu @ [0]) @ findall t3"
    unfolding t2_def by (rule findall_field) (simp_all add: blit_def barrier_bytes)
  have f1: "findall t1 = findall ([0] @ au) @ findall t2"
    unfolding t1_def by (rule findall_field) (simp_all add: blit_def barrier_bytes)
  have f0: "findall (0 # idx @ 0 # t1) = idx # findall t1"
    using idx by (rule findall_marker)
  have "([0] @ idx @ [0]
          @ [2] @ blit ''appid'' @ [0] @ au
          @ [1] @ blit ''appname'' @ [0] @ nu @ [0]
          @ [1] @ blit ''exe'' @ [0] @ eu @ [0]
          @ [1] @ blit ''StartDir'' @ [0] @ su @ [0]
          @ [1] @ blit ''icon'' @ [0]
              @ (cu @ blit ''/grid/'' @ ad @ blit ''_icon.ico'') @ [0]
          @ [8]) @ rest = 0 # idx @ 0 # t1"
    by (simp add: t1_def t2_def t3_def t4_def t5_def t6_def blit_def)
  then show ?thesis
    unfolding idx_def [symmetric] ad_def [symmetric]
    by (simp only: f0 f1 f2 f3 f4 f5 f6 append_Cons append_Nil append_assoc)
qed

lemma make_entry_InrD:
  assumes "make_entry c i a n e s = Inr R"
  obtains au nu eu su cu where "struct_pack_I a = Inr au" and "encode n = Inr nu"
    and "encode e = Inr eu" and "encode s = Inr su" and "encode c = Inr cu"
proof -
  from assms obtain au where 1: "struct_pack_I a = Inr au"
    by (cases "struct_pack_I a") (auto simp: make_entry_def encode_str)
  from assms 1 obtain nu where 2: "encode n = Inr nu"
    by (cases "encode n") (auto simp: make_entry_def encode_str)
  from assms 1 2 obtain eu where 3: "encode e = Inr eu"
    by (cases "encode e") (auto simp: make_entry_def encode_str)
  from assms 1 2 3 obtain su where 4: "encode s = Inr su"
    by (cases "encode s") (auto simp: make_entry_def encode_str)
  from assms 1 2 3 4 obtain cu where 5: "encode c = Inr cu"
    by (cases "encode c") (auto simp: make_entry_def encode_str)
  from 1 2 3 4 5 show thesis by (rule that)
qed

text \<open>The matches of a blob that ends with the terminator are those before the terminator.\<close>

lemma findall_terminated:
  assumes "endswith B [8, 8]"
  shows "findall (take (length B - 2) B) = findall B"
proof -
  from assms have "B = take (length B - 2) B @ 8 # [8]"
    by (metis append_take_drop_id endswith_88)
  then have "findall B = findall (take (length B - 2) B) @ findall [8]"
    using findall_barrier [OF barrier_bytes(3,4), of "take (length B - 2) B" "[8]"] by simp
  then show ?thesis
    by (simp add: findall_nonzero)
qed

text \<open>
  The matches of the blob after the insertion: those of the blob before it, the new index,
  then whatever reads as a marker in the fields of the new record.
\<close>

lemma findall_new_data:
  assumes "endswith B [8, 8]"
    and "take (length B - 2) B = [] \<or> \<not> is_digit (last (take (length B - 2) B))"
    and "0 \<le> i"
    and "make_entry c i a n e s = Inr R"
    and "struct_pack_I a = Inr au" and "encode n = Inr nu" and "encode e = Inr eu"
    and "encode s = Inr su" and "encode c = Inr cu"
  shows "findall (new_data B R) =
           findall B @ [map of_nat (str i)] @ findall ([0] @ au) @ findall ([0] @ nu @ [0])
           @ findall ([0] @ eu @ [0]) @ findall ([0] @ su @ [0]) @ findall ([0] @ cu)"
proof -
  define P where "P = take (length B - 2) B"
  define T where "T = map of_nat (str i) @ [0]
          @ [2] @ blit ''appid'' @ [0] @ au
          @ [1] @ blit ''appname'' @ [0] @ nu @ [0]
          @ [1] @ blit ''exe'' @ [0] @ eu @ [0]
          @ [1] @ blit ''StartDir'' @ [0] @ su @ [0]
          @ [1] @ blit ''icon'' @ [0]
              @ (cu @ blit ''/grid/'' @ map of_nat (str a) @ blit ''_icon.ico'') @ [0]
          @ [8]"
  have "make_entry c i a n e s = Inr ([0] @ T)"
    unfolding T_def using assms(5-9) by (rule make_entry_bytes)
  with assms(4) have R: "R = [0] @ T" by simp
  have "findall (([0] @ T) @ [8, 8]) =
      [map of_nat (str i)] @ findall ([0] @ au) @ findall ([0] @ nu @ [0])
      @ findall ([0] @ eu @ [0]) @ findall ([0] @ su @ [0]) @ findall ([0] @ cu)
      @ findall [8, 8]"
    unfolding T_def using assms(3) by (rule findall_entry_bytes)
  moreover have "findall [8, 8] = []"
    by (simp add: findall_nonzero)
  ultimately have E: "findall (0 # T @ [8, 8]) =
      [map of_nat (str i)] @ findall ([0] @ au) @ findall ([0] @ nu @ [0])
      @ findall ([0] @ eu @ [0]) @ findall ([0] @ su @ [0]) @ findall ([0] @ cu)"
    by simp
  have "new_data B R = P @ 0 # (T @ [8, 8])"
    by (simp add: new_data_def P_def R)
  moreover have "findall (P @ 0 # (T @ [8, 8])) = findall P @ findall (0 # (T @ [8, 8]))"
    using assms(2) unfolding P_def by (rule findall_zero_join)
  moreover have "findall P = findall B"
    unfolding P_def using assms(1) by (rule findall_terminated)
  ultimately show ?thesis
    using E by simp
qed

lemma plain_fieldsD:
  assumes "plain_fields c a n e s"
  obtains au nu eu su cu where "struct_pack_I a = Inr au" and "encode n = Inr nu"
    and "encode e = Inr eu" and "encode s = Inr su" and "encode c = Inr cu"
    and "findall ([0] @ au) = []" and "findall ([0] @ nu @ [0]) = []"
    and "findall ([0] @ eu @ [0]) = []" and "findall ([0] @ su @ [0]) = []"
    and "findall ([0] @ cu) = []"
  using assms unfolding plain_fields_def by (auto split: sum.splits)

lemma findall_new_data_plain:
  assumes "endswith B [8, 8]"
    and "take (length B - 2) B = [] \<or> \<not> is_digit (last (take (length B - 2) B))"
    and "0 \<le> i"
    and "make_entry c i a n e s = Inr R"
    and "plain_fields c a n e s"
  shows "findall (new_data B R) = findall B @ [map of_nat (str i)]"
proof -
  from assms(5) obtain au nu eu su cu where enc: "struct_pack_I a = Inr au" "encode n = Inr nu"
    "encode e = Inr eu" "encode s = Inr su" "encode c = Inr cu"
    and plain: "findall ([0] @ au) = []" "findall ([0] @ nu @ [0]) = []"
    "findall ([0] @ eu @ [0]) = []" "findall ([0] @ su @ [0]) = []" "findall ([0] @ cu) = []"
    by (rule plain_fieldsD)
  show ?thesis
    using findall_new_data [OF assms(1-4) enc] plain by simp
qed

lemma next_index_new_data_plain:
  assumes "endswith B [8, 8]"
    and "take (length B - 2) B = [] \<or> \<not> is_digit (last (take (length B - 2) B))"
    and "0 \<le> i"
    and "make_entry c i a n e s = Inr R"
    and "plain_fields c a n e s"
  shows "next_index (new_data B R) = i + 1"
proof -
  have "findall (new_data B R) = findall B @ [map of_nat (str i)]"
    using assms by (rule findall_new_data_plain)
  then show ?thesis
    using assms(3) by (simp add: next_index_def get_latest_index_def int_of_bytes_str)
qed

section \<open>Examples, evaluated\<close>

lemmas scan_eval = findall.simps(2) match_here_def is_digit_def word_le_nat_alt
lemmas entry_eval = record_layout_def ascii_decimal_def dec_digits.simps le32_def blit_def

lemma example_plain: "plain_fields (lit ''/c'') 0xC8F9E060 APPNAME (lit ''/r'') (lit ''/d'')"
  by (simp add: plain_fields_def struct_pack_I_def APPNAME_def lit_def utf8_char_def scan_eval)

lemma encode_APPNAME: "encode APPNAME = Inr (blit ''Minecraft Splitscreen'')"
  by (simp add: APPNAME_def lit_def blit_def utf8_char_def)

lemma encode_example_strings:
  "encode (lit ''/r'') = Inr (blit ''/r'')"
  "encode (lit ''/d'') = Inr (blit ''/d'')"
  "encode (lit ''7'') = Inr (blit ''7'')"
  "encode (icon_path (lit ''/c'') 0xC8F9E060) = Inr (blit ''/c/grid/3371819104_icon.ico'')"
  by (simp_all add: icon_path_def str_def dec_digits.simps lit_def blit_def utf8_char_def)

lemma example_entry:
  "make_entry (lit ''/c'') 0 0xC8F9E060 APPNAME (lit ''/r'') (lit ''/d'') =
     Inr (record_layout 0 0xC8F9E060 (blit ''Minecraft Splitscreen'') (blit ''/r'') (blit ''/d'')
            (blit ''/c/grid/3371819104_icon.ico''))"
  using make_entry_record_layout [OF _ _ _ encode_APPNAME encode_example_strings(1,2,4), of 0]
  by simp

lemma example_entry_7:
  "make_entry (lit ''/c'') 0 0xC8F9E060 APPNAME (lit ''/r'') (lit ''7'') =
     Inr (record_layout 0 0xC8F9E060 (blit ''Minecraft Splitscreen'') (blit ''/r'') (blit ''7'')
            (blit ''/c/grid/3371819104_icon.ico''))"
  using make_entry_record_layout [OF _ _ _ encode_APPNAME encode_example_strings(1,3,4), of 0]
  by simp

lemma example_7:
  "next_index (new_data skeleton
     (record_layout 0 0xC8F9E060 (blit ''Minecraft Splitscreen'') (blit ''/r'') (blit ''7'')
            (blit ''/c/grid/3371819104_icon.ico''))) = 8"
  by (simp add: next_index_def get_latest_index_def new_data_def skeleton_def int_of_bytes_def entry_eval scan_eval)

section \<open>A field value that reads as an index marker\<close>

lemma example_entry_nul:
  "make_entry (lit ''/c'') 0 0xC8F9E060 [0x41, 0, 0x35, 0, 0x42] (lit ''/r'') (lit ''/d'') =
     Inr (record_layout 0 0xC8F9E060 ([0x41] @ [0, 0x35, 0] @ [0x42]) (blit ''/r'') (blit ''/d'')
            (blit ''/c/grid/3371819104_icon.ico''))"
proof -
  have "encode [0x41, 0, 0x35, 0, 0x42] = Inr ([0x41] @ [0, 0x35, 0] @ [0x42])"
    by (simp add: utf8_char_def)
  from make_entry_record_layout [OF _ _ _ this encode_example_strings(1,2,4), of 0]
  show ?thesis by simp
qed

text \<open>
  C7. There is a blob that ends with the terminator and holds one record, built by
  \<open>make_entry\<close> with index 0 and inserted into the skeleton, whose display name contains a
  zero byte, the digit 5 and a zero byte. The scan finds the record's marker and then these
  digits, so the next index is 6 and not 1, one more than the highest index of a record. The
  same happens without a zero byte inside a value: the start directory \<open>"7"\<close> stands between
  the zero byte that ends the field name and the one that ends the value.
\<close>

theorem marker_in_field_value:
  "make_entry (lit ''/c'') 0 0xC8F9E060 [0x41, 0, 0x35, 0, 0x42] (lit ''/r'') (lit ''/d'') =
     Inr (record_layout 0 0xC8F9E060 ([0x41] @ [0, 0x35, 0] @ [0x42]) (blit ''/r'') (blit ''/d'')
            (blit ''/c/grid/3371819104_icon.ico''))
   \<and> endswith (new_data skeleton
         (record_layout 0 0xC8F9E060 ([0x41] @ [0, 0x35, 0] @ [0x42]) (blit ''/r'') (blit ''/d'')
            (blit ''/c/grid/3371819104_icon.ico''))) [8, 8]
   \<and> findall (new_data skeleton
         (record_layout 0 0xC8F9E060 ([0x41] @ [0, 0x35, 0] @ [0x42]) (blit ''/r'') (blit ''/d'')
            (blit ''/c/grid/3371819104_icon.ico''))) = [[0x30], [0x35]]
   \<and> next_index (new_data skeleton
         (record_layout 0 0xC8F9E060 ([0x41] @ [0, 0x35, 0] @ [0x42]) (blit ''/r'') (blit ''/d'')
            (blit ''/c/grid/3371819104_icon.ico''))) = 6
   \<and> (6 :: int) \<noteq> 0 + 1
   \<and> findall (new_data skeleton
         (record_layout 0 0xC8F9E060 (blit ''Minecraft Splitscreen'') (blit ''/r'')
            (blit ''7'') (blit ''/c/grid/3371819104_icon.ico''))) = [[0x30], [0x37]]
   \<and> next_index (new_data skeleton
         (record_layout 0 0xC8F9E060 (blit ''Minecraft Splitscreen'') (blit ''/r'')
            (blit ''7'') (blit ''/c/grid/3371819104_icon.ico''))) = 8"
proof -
  have 1: "findall (new_data skeleton
         (record_layout 0 0xC8F9E060 ([0x41] @ [0, 0x35, 0] @ [0x42]) (blit ''/r'') (blit ''/d'')
            (blit ''/c/grid/3371819104_icon.ico''))) = [[0x30], [0x35]]"
    by (simp add: new_data_def skeleton_def entry_eval scan_eval)
  then have 2: "next_index (new_data skeleton
         (record_layout 0 0xC8F9E060 ([0x41] @ [0, 0x35, 0] @ [0x42]) (blit ''/r'') (blit ''/d'')
            (blit ''/c/grid/3371819104_icon.ico''))) = 6"
    by (simp add: next_index_def get_latest_index_def int_of_bytes_def)
  have 3: "findall (new_data skeleton
         (record_layout 0 0xC8F9E060 (blit ''Minecraft Splitscreen'') (blit ''/r'')
            (blit ''7'') (blit ''/c/grid/3371819104_icon.ico''))) = [[0x30], [0x37]]"
    by (simp add: new_data_def skeleton_def entry_eval scan_eval)
  from example_entry_nul endswith_new_data 1 2 3 example_7 show ?thesis
    by simp
qed

section \<open>Running the script twice\<close>

lemma run_AddedI:
  assumes "open_shortcuts w = (w', B)" and "appid APPNAME e = Inr a"
    and "make_entry c (next_index B) a APPNAME e s = Inr R" and "endswith B [8, 8]"
  shows "run c e s w = (write_file (new_data B R) w', Added (next_index B) a)"
  using assms by (simp add: run_def next_index_def write_new_data_def)

lemma run_AddedD:
  assumes "snd (run c e s w) = Added n a"
  obtains R where "appid APPNAME e = Inr a" and "n = next_index (snd (open_shortcuts w))"
    and "make_entry c n a APPNAME e s = Inr R" and "endswith (snd (open_shortcuts w)) [8, 8]"
    and "fst (run c e s w) =
           write_file (new_data (snd (open_shortcuts w)) R) (fst (open_shortcuts w))"
  using assms
  by (auto simp: run_def Let_def next_index_def write_new_data_def
      split: prod.splits sum.splits if_splits)

lemma make_entry_other_index:
  assumes "make_entry c i a n e s = Inr R"
  obtains R' where "make_entry c j a n e s = Inr R'"
proof -
  from assms obtain au nu eu su cu where "struct_pack_I a = Inr au" "encode n = Inr nu"
    "encode e = Inr eu" "encode s = Inr su" "encode c = Inr cu"
    by (rule make_entry_InrD)
  then have "\<exists>R'. make_entry c j a n e s = Inr R'"
    by (simp add: make_entry_bytes)
  with that show thesis by blast
qed

lemma make_entry_index_inj:
  assumes "0 \<le> i" and "0 \<le> j"
    and "make_entry c i a n e s = Inr R" and "make_entry c j a n e s = Inr R"
  shows "i = j"
proof -
  from assms(3) obtain au nu eu su cu where enc: "struct_pack_I a = Inr au" "encode n = Inr nu"
    "encode e = Inr eu" "encode s = Inr su" "encode c = Inr cu"
    by (rule make_entry_InrD)
  have "hd (findall (R @ [])) = map of_nat (str k)"
    if "0 \<le> k" and "make_entry c k a n e s = Inr R" for k
  proof -
    from that(2) make_entry_bytes [OF enc, of k]
    have "R = [0] @ map of_nat (str k) @ [0]
          @ [2] @ blit ''appid'' @ [0] @ au
          @ [1] @ blit ''appname'' @ [0] @ nu @ [0]
          @ [1] @ blit ''exe'' @ [0] @ eu @ [0]
          @ [1] @ blit ''StartDir'' @ [0] @ su @ [0]
          @ [1] @ blit ''icon'' @ [0]
              @ (cu @ blit ''/grid/'' @ map of_nat (str a) @ blit ''_icon.ico'') @ [0]
          @ [8]"
      by simp
    then show ?thesis
      using findall_entry_bytes [OF that(1), of au nu eu su cu a "[]"] by simp
  qed
  from this [OF assms(1,3)] this [OF assms(2,4)]
  have "int_of_bytes (map of_nat (str i)) = int_of_bytes (map of_nat (str j))"
    by simp
  with assms(1,2) show ?thesis
    by (simp add: int_of_bytes_str)
qed

lemma next_index_skeleton: "next_index skeleton = 0"
  by (simp add: next_index_def get_latest_index_def skeleton_def blit_def scan_eval)

lemma run_twice:
  assumes "snd (run c e s w) = Added n a" and B: "B = snd (open_shortcuts w)"
  shows "\<exists>n' R R'.
       snd (run c e s (fst (run c e s w))) = Added n' a
     \<and> make_entry c n a APPNAME e s = Inr R \<and> make_entry c n' a APPNAME e s = Inr R'
     \<and> vdf (fst (run c e s w)) = Some (new_data B R)
     \<and> vdf (fst (run c e s (fst (run c e s w)))) = Some (take (length B - 2) B @ R @ R' @ [8, 8])
     \<and> n = next_index B \<and> n' = next_index (new_data B R)
     \<and> ((take (length B - 2) B = [] \<or> \<not> is_digit (last (take (length B - 2) B)))
          \<and> plain_fields c a APPNAME e s \<longrightarrow> n' = n + 1 \<and> R' \<noteq> R)"
proof -
  from assms(1) obtain R where a: "appid APPNAME e = Inr a" and n: "n = next_index B"
    and R: "make_entry c n a APPNAME e s = Inr R" and t: "endswith B [8, 8]"
    and w1: "fst (run c e s w) = write_file (new_data B R) (fst (open_shortcuts w))"
    unfolding B by (rule run_AddedD)
  define w1 where "w1 = fst (run c e s w)"
  define n' where "n' = next_index (new_data B R)"
  have v1: "vdf w1 = Some (new_data B R)"
    by (simp add: w1_def w1 write_file_def)
  then have o: "open_shortcuts w1 = (w1, new_data B R)"
    by (simp add: open_shortcuts_def)
  from R obtain R' where R': "make_entry c n' a APPNAME e s = Inr R'"
    by (rule make_entry_other_index)
  have r2: "run c e s w1 = (write_file (new_data (new_data B R) R') w1, Added n' a)"
    unfolding n'_def using o a R' [unfolded n'_def] endswith_new_data by (rule run_AddedI)
  have v2: "vdf (fst (run c e s w1)) = Some (take (length B - 2) B @ R @ R' @ [8, 8])"
    by (simp add: r2 write_file_def new_data_def)
  have plain: "n' = n + 1 \<and> R' \<noteq> R"
    if "take (length B - 2) B = [] \<or> \<not> is_digit (last (take (length B - 2) B))"
      and "plain_fields c a APPNAME e s"
  proof -
    have n0: "0 \<le> n"
      unfolding n by (rule next_index_nonneg)
    have "next_index (new_data B R) = n + 1"
      using t that(1) n0 R that(2) by (rule next_index_new_data_plain)
    then have 1: "n' = n + 1" by (simp add: n'_def)
    have "R' \<noteq> R"
    proof
      assume "R' = R"
      with R' have "make_entry c n' a APPNAME e s = Inr R" by simp
      with n0 1 R have "n = n'"
        by (intro make_entry_index_inj [of n n' c a APPNAME e s R]) simp_all
      with 1 show False by simp
    qed
    with 1 show ?thesis by simp
  qed
  have "snd (run c e s w1) = Added n' a"
    by (simp add: r2)
  with R R' v1 v2 n n'_def plain show ?thesis
    unfolding w1_def [symmetric] by blast
qed

section \<open>The scan and the occurrences of the pattern\<close>

lemma pattern_at_Nil: "\<not> pattern_at [] k g"
  by (simp add: pattern_at_def)

lemma pattern_at_0: "pattern_at xs 0 g \<longleftrightarrow> (\<exists>rest. match_here xs = Some (g, rest))"
  by (auto simp: pattern_at_def match_here_Some_iff)

lemma pattern_at_Suc: "pattern_at (x # ys) (Suc k) g \<longleftrightarrow> pattern_at ys k g"
proof
  assume "pattern_at (x # ys) (Suc k) g"
  then obtain pre suf where g: "g \<noteq> []" "\<forall>d\<in>set g. is_digit d"
    and eq: "x # ys = pre @ [0] @ g @ [0] @ suf" and len: "length pre = Suc k"
    by (auto simp: pattern_at_def)
  from len obtain p pre' where "pre = p # pre'" and "length pre' = k"
    by (cases pre) auto
  with eq g show "pattern_at ys k g"
    by (auto simp: pattern_at_def)
next
  assume "pattern_at ys k g"
  then obtain pre suf where g: "g \<noteq> []" "\<forall>d\<in>set g. is_digit d"
    and eq: "ys = pre @ [0] @ g @ [0] @ suf" and len: "length pre = k"
    by (auto simp: pattern_at_def)
  from eq len have "x # ys = (x # pre) @ [0] @ g @ [0] @ suf \<and> length (x # pre) = Suc k"
    by simp
  with g show "pattern_at (x # ys) (Suc k) g"
    unfolding pattern_at_def by blast
qed

lemma occs_iff: "(q, g) \<in> set (occs p xs) \<longleftrightarrow> p \<le> q \<and> pattern_at xs (q - p) g"
proof (induction xs arbitrary: p)
  case Nil
  show ?case by (simp add: pattern_at_Nil)
next
  case (Cons x ys)
  have here: "(q, g) \<in> set (case match_here (x # ys) of Some (h, rest) \<Rightarrow> [(p, h)] | None \<Rightarrow> [])
      \<longleftrightarrow> q = p \<and> pattern_at (x # ys) 0 g"
    by (cases "match_here (x # ys)") (auto simp: pattern_at_0)
  show ?case
  proof (cases "q \<le> p")
    case True
    then show ?thesis
      using here Cons [of "Suc p"] by auto
  next
    case False
    then obtain k where k: "q - p = Suc k" "q - Suc p = k"
      by (cases "q - p") auto
    with False show ?thesis
      using here Cons [of "Suc p"] by (auto simp: pattern_at_Suc)
  qed
qed

lemma occurrences_iff: "(p, g) \<in> set (occurrences data) \<longleftrightarrow> pattern_at data p g"
  by (simp add: occurrences_def occs_iff)

lemma occs_lower: "(q, g) \<in> set (occs p xs) \<Longrightarrow> p \<le> q"
  by (simp add: occs_iff)

lemma select_same:
  assumes "\<forall>(q, g)\<in>set os. k \<le> q \<and> k' \<le> q"
  shows "select k os = select k' os"
  using assms by (cases os) auto

lemma select_skip:
  assumes "\<forall>(q, g)\<in>set os. q < k"
  shows "select k (os @ os') = select k os'"
  using assms by (induction os) auto

lemma occs_append:
  "\<exists>os. occs p (xs @ ys) = os @ occs (p + length xs) ys \<and> (\<forall>(q, g)\<in>set os. q < p + length xs)"
proof (induction xs arbitrary: p)
  case Nil
  show ?case by simp
next
  case (Cons x xs)
  from Cons [of "Suc p"] obtain os where os: "occs (Suc p) (xs @ ys) = os @ occs (Suc p + length xs) ys"
    and lt: "\<forall>(q, g)\<in>set os. q < Suc p + length xs"
    by blast
  define h where "h = (case match_here (x # xs @ ys) of Some (g, rest) \<Rightarrow> [(p, g)] | None \<Rightarrow> [])"
  have "occs p ((x # xs) @ ys) = (h @ os) @ occs (p + length (x # xs)) ys"
    by (simp add: h_def os)
  moreover have "\<forall>(q, g)\<in>set (h @ os). q < p + length (x # xs)"
    using lt by (auto simp: h_def split: option.splits)
  ultimately show ?case by blast
qed

text \<open>
  The scan returns the digits of the occurrences that are kept when one goes from left to
  right and drops every occurrence that starts inside the match kept last.
\<close>

lemma findall_select: "findall xs = map snd (select p (occs p xs))"
proof (induction xs arbitrary: p rule: findall.induct)
  case 1
  show ?case by simp
next
  case (2 x ys)
  show ?case
  proof (cases "match_here (x # ys)")
    case None
    have "select p (occs (Suc p) ys) = select (Suc p) (occs (Suc p) ys)"
      by (rule select_same) (auto dest: occs_lower)
    with None 2(1) [OF None, of "Suc p"] show ?thesis
      by (simp add: findall.simps(2))
  next
    case (Some m)
    obtain g rest where m: "m = (g, rest)" by (cases m)
    with Some have ys: "ys = (g @ [0]) @ rest"
      by (simp add: match_here_Some_iff)
    obtain os where os: "occs (Suc p) ((g @ [0]) @ rest) = os @ occs (Suc p + length (g @ [0])) rest"
      and lt: "\<forall>(q, h)\<in>set os. q < Suc p + length (g @ [0])"
      using occs_append by blast
    have "select (p + length g + 2) (occs (Suc p) ys) = select (p + length g + 2) (occs (p + length g + 2) rest)"
      unfolding ys os using lt by (simp add: select_skip)
    also have "map snd \<dots> = findall rest"
      using 2(2) [OF Some m [symmetric], of "p + length g + 2"] by simp
    finally show ?thesis
      using Some m by (simp add: findall.simps(2))
  qed
qed

lemma select_Nil_iff:
  assumes "\<forall>(q, g)\<in>set os. k \<le> q"
  shows "select k os = [] \<longleftrightarrow> os = []"
  using assms by (cases os) auto

lemma findall_Nil_iff: "findall data = [] \<longleftrightarrow> occurrences data = []"
proof -
  have "select 0 (occurrences data) = [] \<longleftrightarrow> occurrences data = []"
    by (rule select_Nil_iff) auto
  then show ?thesis
    by (simp add: findall_select [of data 0] occurrences_def)
qed

lemma next_index_zero_iff: "next_index data = 0 \<longleftrightarrow> occurrences data = []"
proof (cases "findall data = []")
  case True
  then show ?thesis
    using findall_Nil_iff [of data] by (simp add: next_index_def get_latest_index_def)
next
  case False
  then have "last (findall data) \<in> set (findall data)" by simp
  then have "0 \<le> int_of_bytes (last (findall data))"
    by (intro int_of_bytes_nonneg) (auto dest: findall_groups)
  with False show ?thesis
    using findall_Nil_iff [of data] by (simp add: next_index_def get_latest_index_def)
qed

lemma next_index_select:
  assumes "occurrences data \<noteq> []"
  shows "next_index data = int_of_bytes (snd (last (select 0 (occurrences data)))) + 1"
proof -
  have ne: "select 0 (occurrences data) \<noteq> []"
    using assms select_Nil_iff [of "occurrences data" 0] by auto
  have "findall data = map snd (select 0 (occurrences data))"
    by (simp add: findall_select [of data 0] occurrences_def)
  with ne show ?thesis
    by (simp add: next_index_def get_latest_index_def last_map)
qed

lemma occs_no_zero: "0 \<notin> set xs \<Longrightarrow> occs p (xs @ ys) = occs (p + length xs) ys"
  by (induction xs arbitrary: p) (auto simp: match_here_nonzero)

text \<open>
  When no occurrence starts on the closing zero byte of another one, the scan keeps every
  occurrence, and the match it finds last is the rightmost occurrence.
\<close>

lemma select_all:
  assumes "\<forall>(p1, g1)\<in>set (occs p xs). \<forall>(q, h)\<in>set (occs p xs). q \<noteq> p1 + length g1 + 1"
  shows "select p (occs p xs) = occs p xs"
  using assms
proof (induction xs arbitrary: p rule: findall.induct)
  case 1
  show ?case by simp
next
  case (2 x ys)
  show ?case
  proof (cases "match_here (x # ys)")
    case None
    then have o: "occs p (x # ys) = occs (Suc p) ys" by simp
    have "select p (occs (Suc p) ys) = select (Suc p) (occs (Suc p) ys)"
      by (rule select_same) (auto dest: occs_lower)
    also have "\<dots> = occs (Suc p) ys"
      using 2(3) unfolding o by (intro 2(1) [OF None])
    finally show ?thesis unfolding o .
  next
    case (Some m)
    obtain g rest where m: "m = (g, rest)" by (cases m)
    with Some have ys: "ys = g @ 0 # rest" and g: "\<forall>d\<in>set g. is_digit d"
      by (simp_all add: match_here_Some_iff)
    from g have "0 \<notin> set g"
      by (auto dest: is_digit_nonzero)
    then have o1: "occs (Suc p) ys = occs (Suc p + length g) (0 # rest)"
      unfolding ys by (rule occs_no_zero)
    have here: "(p, g) \<in> set (occs p (x # ys))"
      using Some m by simp
    have "match_here (0 # rest) = None"
    proof (rule ccontr)
      assume "match_here (0 # rest) \<noteq> None"
      then obtain h r where "match_here (0 # rest) = Some (h, r)" by auto
      then have "(p + length g + 1, h) \<in> set (occs p (x # ys))"
        using Some m o1 by simp
      with 2(3) here show False by blast
    qed
    then have o2: "occs (Suc p) ys = occs (p + length g + 2) rest"
      by (simp add: o1)
    have o: "occs p (x # ys) = (p, g) # occs (p + length g + 2) rest"
      using Some m o2 by simp
    have "select (p + length g + 2) (occs (p + length g + 2) rest) = occs (p + length g + 2) rest"
      using 2(3) unfolding o by (intro 2(2) [OF Some m [symmetric]]) auto
    then show ?thesis unfolding o by simp
  qed
qed

lemma rightmost_when_apart:
  assumes "\<forall>(p, g)\<in>set (occurrences data). \<forall>(q, h)\<in>set (occurrences data). q \<noteq> p + length g + 1"
  shows "next_index data = spec_next_index data"
proof (cases "occurrences data = []")
  case True
  then show ?thesis
    using next_index_zero_iff [of data] by (simp add: spec_next_index_def)
next
  case False
  have "select 0 (occurrences data) = occurrences data"
    unfolding occurrences_def using assms [unfolded occurrences_def] by (rule select_all)
  with False show ?thesis
    by (simp add: next_index_select spec_next_index_def)
qed

lemma make_entry_ends:
  assumes "make_entry c i a n e s = Inr R"
  shows "R \<noteq> [] \<and> last R = 8"
proof -
  from assms obtain au nu eu su cu where enc: "struct_pack_I a = Inr au" "encode n = Inr nu"
    "encode e = Inr eu" "encode s = Inr su" "encode c = Inr cu"
    by (rule make_entry_InrD)
  from assms make_entry_bytes [OF enc, of i] show ?thesis by auto
qed

lemma new_data_before_terminator:
  assumes "make_entry c i a n e s = Inr R"
  shows "\<not> is_digit (last (take (length (new_data B R) - 2) (new_data B R)))"
proof -
  have "take (length (new_data B R) - 2) (new_data B R) = take (length B - 2) B @ R"
    by (simp add: new_data_def)
  then show ?thesis
    using make_entry_ends [OF assms] barrier_bytes(4) by simp
qed

lemma example_entries_1_4:
  "make_entry (lit ''/c'') 1 0xC8F9E060 APPNAME (lit ''/r'') (lit ''/d'') =
     Inr (record_layout 1 0xC8F9E060 (blit ''Minecraft Splitscreen'') (blit ''/r'') (blit ''/d'')
            (blit ''/c/grid/3371819104_icon.ico''))"
  "make_entry (lit ''/c'') 4 0xC8F9E060 APPNAME (lit ''/r'') (lit ''/d'') =
     Inr (record_layout 4 0xC8F9E060 (blit ''Minecraft Splitscreen'') (blit ''/r'') (blit ''/d'')
            (blit ''/c/grid/3371819104_icon.ico''))"
  using make_entry_record_layout [OF _ _ _ encode_APPNAME encode_example_strings(1,2,4), of 1]
    make_entry_record_layout [OF _ _ _ encode_APPNAME encode_example_strings(1,2,4), of 4]
  by simp_all

text \<open>
  C5, as the claim words it, fails where two occurrences of the pattern share a zero byte.
  In \<open>00 31 00 32 00 08 08\<close> the pattern occurs at positions 0 and 2; the rightmost
  occurrence holds the digit 2, so the claim gives 3; the scan, whose matches do not overlap,
  finds only the first and the next index is 2. And a database with records at the indices
  0, 1 and 4 need not give 5: when the start directory of the last record is \<open>"7"\<close>, the
  next index is 8.
\<close>

theorem next_index_rightmost_counterexample:
  "occurrences [0, 0x31, 0, 0x32, 0, 8, 8] = [(0, [0x31]), (2, [0x32])]
   \<and> spec_next_index [0, 0x31, 0, 0x32, 0, 8, 8] = 3
   \<and> findall [0, 0x31, 0, 0x32, 0, 8, 8] = [[0x31]]
   \<and> next_index [0, 0x31, 0, 0x32, 0, 8, 8] = 2
   \<and> make_entry (lit ''/c'') 4 0xC8F9E060 APPNAME (lit ''/r'') (lit ''7'') =
       Inr (record_layout 4 0xC8F9E060 (blit ''Minecraft Splitscreen'') (blit ''/r'')
              (blit ''7'') (blit ''/c/grid/3371819104_icon.ico''))
   \<and> next_index
         (new_data
           (new_data
             (new_data skeleton
               (record_layout 0 0xC8F9E060 (blit ''Minecraft Splitscreen'') (blit ''/r'')
                  (blit ''/d'') (blit ''/c/grid/3371819104_icon.ico'')))
             (record_layout 1 0xC8F9E060 (blit ''Minecraft Splitscreen'') (blit ''/r'')
                (blit ''/d'') (blit ''/c/grid/3371819104_icon.ico'')))
           (record_layout 4 0xC8F9E060 (blit ''Minecraft Splitscreen'') (blit ''/r'')
              (blit ''7'') (blit ''/c/grid/3371819104_icon.ico''))) = 8"
proof -
  have "occurrences [0, 0x31, 0, 0x32, 0, 8, 8] = [(0, [0x31]), (Suc (Suc 0), [0x32])]"
    by (simp add: occurrences_def scan_eval)
  moreover have "Suc (Suc 0) = 2"
    by simp
  ultimately have 1: "occurrences [0, 0x31, 0, 0x32, 0, 8, 8] = [(0, [0x31]), (2, [0x32])]"
    by (simp only:)
  then have 2: "spec_next_index [0, 0x31, 0, 0x32, 0, 8, 8] = 3"
    by (simp add: spec_next_index_def int_of_bytes_def)
  have 3: "findall [0, 0x31, 0, 0x32, 0, 8, 8] = [[0x31]]"
    by (simp add: scan_eval)
  then have 4: "next_index [0, 0x31, 0, 0x32, 0, 8, 8] = 2"
    by (simp add: next_index_def get_latest_index_def int_of_bytes_def)
  have 5: "make_entry (lit ''/c'') 4 0xC8F9E060 APPNAME (lit ''/r'') (lit ''7'') =
       Inr (record_layout 4 0xC8F9E060 (blit ''Minecraft Splitscreen'') (blit ''/r'')
              (blit ''7'') (blit ''/c/grid/3371819104_icon.ico''))"
    using make_entry_record_layout [OF _ _ _ encode_APPNAME encode_example_strings(1,3,4), of 4]
    by simp
  have 6: "next_index
         (new_data
           (new_data
             (new_data skeleton
               (record_layout 0 0xC8F9E060 (blit ''Minecraft Splitscreen'') (blit ''/r'')
                  (blit ''/d'') (blit ''/c/grid/3371819104_icon.ico'')))
             (record_layout 1 0xC8F9E060 (blit ''Minecraft Splitscreen'') (blit ''/r'')
                (blit ''/d'') (blit ''/c/grid/3371819104_icon.ico'')))
           (record_layout 4 0xC8F9E060 (blit ''Minecraft Splitscreen'') (blit ''/r'')
              (blit ''7'') (blit ''/c/grid/3371819104_icon.ico''))) = 8"
  proof -
    define B where "B = new_data
             (new_data skeleton
               (record_layout 0 0xC8F9E060 (blit ''Minecraft Splitscreen'') (blit ''/r'')
                  (blit ''/d'') (blit ''/c/grid/3371819104_icon.ico'')))
             (record_layout 1 0xC8F9E060 (blit ''Minecraft Splitscreen'') (blit ''/r'')
                (blit ''/d'') (blit ''/c/grid/3371819104_icon.ico''))"
    have "\<not> is_digit (last (take (length B - 2) B))"
      unfolding B_def using example_entries_1_4(1) by (rule new_data_before_terminator)
    then have b: "take (length B - 2) B = [] \<or> \<not> is_digit (last (take (length B - 2) B))" ..
    have t: "endswith B [8, 8]"
      unfolding B_def by (rule endswith_new_data)
    have p: "struct_pack_I 0xC8F9E060 = Inr [0x60, 0xE0, 0xF9, 0xC8]"
      by (simp add: struct_pack_I_def)
    have c: "encode (lit ''/c'') = Inr (blit ''/c'')"
      by (simp add: lit_def blit_def utf8_char_def)
    have "last (findall (new_data B
        (record_layout 4 0xC8F9E060 (blit ''Minecraft Splitscreen'') (blit ''/r'')
              (blit ''7'') (blit ''/c/grid/3371819104_icon.ico'')))) = [0x37]"
      using findall_new_data [OF t b _ 5 p encode_APPNAME encode_example_strings(1,3) c]
      by (simp add: blit_def scan_eval)
    moreover have "findall (new_data B
        (record_layout 4 0xC8F9E060 (blit ''Minecraft Splitscreen'') (blit ''/r'')
              (blit ''7'') (blit ''/c/grid/3371819104_icon.ico''))) \<noteq> []"
      using findall_new_data [OF t b _ 5 p encode_APPNAME encode_example_strings(1,3) c]
      by simp
    ultimately show ?thesis
      unfolding B_def [symmetric]
      by (simp add: next_index_def get_latest_index_def int_of_bytes_def)
  qed
  from 1 2 3 4 5 6 show ?thesis by (simp only: simp_thms)
qed

text \<open>
  C5, amended. The scan goes from left to right and its matches do not overlap: of the
  occurrences of the pattern "zero byte, one or more decimal digits, zero byte" it keeps
  those that do not start inside the match kept before. The next index is zero exactly when
  the pattern does not occur; otherwise it is one more than the number in the match kept
  last, which is the rightmost occurrence whenever no occurrence starts on the closing zero
  byte of another. On the skeleton the next index is 0; on a database made from the skeleton
  by inserting records with the indices 0, 1 and 4, the last of them with plain fields, it
  is 5.
\<close>

theorem next_index_scan:
  "(\<forall>p g. (p, g) \<in> set (occurrences data) \<longleftrightarrow> pattern_at data p g)
   \<and> findall data = map snd (select 0 (occurrences data))
   \<and> (next_index data = 0 \<longleftrightarrow> occurrences data = [])
   \<and> (occurrences data \<noteq> [] \<longrightarrow>
        next_index data = int_of_bytes (snd (last (select 0 (occurrences data)))) + 1)
   \<and> ((\<forall>(p, g)\<in>set (occurrences data). \<forall>(q, h)\<in>set (occurrences data). q \<noteq> p + length g + 1)
        \<longrightarrow> next_index data = spec_next_index data)
   \<and> next_index skeleton = 0
   \<and> (make_entry c0 0 a0 n0 e0 s0 = Inr R0 \<and> make_entry c1 1 a1 n1 e1 s1 = Inr R1
        \<and> make_entry c4 4 a4 n4 e4 s4 = Inr R4 \<and> plain_fields c4 a4 n4 e4 s4
        \<longrightarrow> next_index (new_data (new_data (new_data skeleton R0) R1) R4) = 5)"
proof -
  have 1: "\<forall>p g. (p, g) \<in> set (occurrences data) \<longleftrightarrow> pattern_at data p g"
    by (simp add: occurrences_iff)
  have 2: "findall data = map snd (select 0 (occurrences data))"
    by (simp add: findall_select [of data 0] occurrences_def)
  have 7: "next_index (new_data (new_data (new_data skeleton R0) R1) R4) = 5"
    if "make_entry c1 1 a1 n1 e1 s1 = Inr R1" and "make_entry c4 4 a4 n4 e4 s4 = Inr R4"
      and "plain_fields c4 a4 n4 e4 s4"
  proof -
    define B where "B = new_data (new_data skeleton R0) R1"
    have "\<not> is_digit (last (take (length B - 2) B))"
      unfolding B_def using that(1) by (rule new_data_before_terminator)
    then have "take (length B - 2) B = [] \<or> \<not> is_digit (last (take (length B - 2) B))" ..
    moreover have "endswith B [8, 8]"
      unfolding B_def by (rule endswith_new_data)
    ultimately have "next_index (new_data B R4) = 4 + 1"
      using that(2,3) by (intro next_index_new_data_plain [of B 4 c4 a4 n4 e4 s4 R4]) simp_all
    then show ?thesis by (simp add: B_def)
  qed
  from 1 2 7 show ?thesis
    using next_index_zero_iff [of data] next_index_select [of data]
      rightmost_when_apart [of data] next_index_skeleton
    by blast
qed

theorem next_index_scan_witness:
  "occurrences [0, 0x31, 0, 8, 8] = [(0, [0x31])]
   \<and> next_index [0, 0x31, 0, 8, 8] = 2
   \<and> spec_next_index [0, 0x31, 0, 8, 8] = 2
   \<and> make_entry (lit ''/c'') 0 0xC8F9E060 APPNAME (lit ''/r'') (lit ''/d'') =
       Inr (record_layout 0 0xC8F9E060 (blit ''Minecraft Splitscreen'') (blit ''/r'')
              (blit ''/d'') (blit ''/c/grid/3371819104_icon.ico''))
   \<and> make_entry (lit ''/c'') 1 0xC8F9E060 APPNAME (lit ''/r'') (lit ''/d'') =
       Inr (record_layout 1 0xC8F9E060 (blit ''Minecraft Splitscreen'') (blit ''/r'')
              (blit ''/d'') (blit ''/c/grid/3371819104_icon.ico''))
   \<and> make_entry (lit ''/c'') 4 0xC8F9E060 APPNAME (lit ''/r'') (lit ''/d'') =
       Inr (record_layout 4 0xC8F9E060 (blit ''Minecraft Splitscreen'') (blit ''/r'')
              (blit ''/d'') (blit ''/c/grid/3371819104_icon.ico''))
   \<and> plain_fields (lit ''/c'') 0xC8F9E060 APPNAME (lit ''/r'') (lit ''/d'')
   \<and> next_index
         (new_data
           (new_data
             (new_data skeleton
               (record_layout 0 0xC8F9E060 (blit ''Minecraft Splitscreen'') (blit ''/r'')
                  (blit ''/d'') (blit ''/c/grid/3371819104_icon.ico'')))
             (record_layout 1 0xC8F9E060 (blit ''Minecraft Splitscreen'') (blit ''/r'')
                (blit ''/d'') (blit ''/c/grid/3371819104_icon.ico'')))
           (record_layout 4 0xC8F9E060 (blit ''Minecraft Splitscreen'') (blit ''/r'')
              (blit ''/d'') (blit ''/c/grid/3371819104_icon.ico''))) = 5"
proof -
  have o: "occurrences [0, 0x31, 0, 8, 8] = [(0, [0x31])]"
    by (simp add: occurrences_def scan_eval)
  then have s: "spec_next_index [0, 0x31, 0, 8, 8] = 2"
    by (simp add: spec_next_index_def int_of_bytes_def)
  have h: "\<forall>(p, g)\<in>set (occurrences [0, 0x31, 0, 8, 8]).
      \<forall>(q, h)\<in>set (occurrences [0, 0x31, 0, 8, 8]). q \<noteq> p + length g + 1"
    by (simp add: o)
  note t = next_index_scan [where data = "[0, 0x31, 0, 8, 8]"
      and ?c0.0 = "lit ''/c''" and ?a0.0 = "0xC8F9E060" and ?n0.0 = APPNAME
      and ?e0.0 = "lit ''/r''" and ?s0.0 = "lit ''/d''"
      and ?R0.0 = "record_layout 0 0xC8F9E060 (blit ''Minecraft Splitscreen'') (blit ''/r'')
              (blit ''/d'') (blit ''/c/grid/3371819104_icon.ico'')"
      and ?c1.0 = "lit ''/c''" and ?a1.0 = "0xC8F9E060" and ?n1.0 = APPNAME
      and ?e1.0 = "lit ''/r''" and ?s1.0 = "lit ''/d''"
      and ?R1.0 = "record_layout 1 0xC8F9E060 (blit ''Minecraft Splitscreen'') (blit ''/r'')
              (blit ''/d'') (blit ''/c/grid/3371819104_icon.ico'')"
      and ?c4.0 = "lit ''/c''" and ?a4.0 = "0xC8F9E060" and ?n4.0 = APPNAME
      and ?e4.0 = "lit ''/r''" and ?s4.0 = "lit ''/d''"
      and ?R4.0 = "record_layout 4 0xC8F9E060 (blit ''Minecraft Splitscreen'') (blit ''/r'')
              (blit ''/d'') (blit ''/c/grid/3371819104_icon.ico'')"]
  from t h s have 1: "next_index [0, 0x31, 0, 8, 8] = 2"
    by simp
  from t example_entry example_entries_1_4 example_plain
  have 2: "next_index
         (new_data
           (new_data
             (new_data skeleton
               (record_layout 0 0xC8F9E060 (blit ''Minecraft Splitscreen'') (blit ''/r'')
                  (blit ''/d'') (blit ''/c/grid/3371819104_icon.ico'')))
             (record_layout 1 0xC8F9E060 (blit ''Minecraft Splitscreen'') (blit ''/r'')
                (blit ''/d'') (blit ''/c/grid/3371819104_icon.ico'')))
           (record_layout 4 0xC8F9E060 (blit ''Minecraft Splitscreen'') (blit ''/r'')
              (blit ''/d'') (blit ''/c/grid/3371819104_icon.ico''))) = 5"
    by blast
  from o s 1 2 example_entry example_entries_1_4 example_plain show ?thesis
    by (simp only: simp_thms)
qed

section \<open>The identifier bytes of an ordinary path read as an index marker\<close>

lemma appid_pnq: "appid APPNAME (lit ''/pnq'') = Inr 0xDBD60034"
  by (simp add: appid_def APPNAME_def lit_def utf8_char_def crc32_def crc_update_unfold
      crc_shift_def)

lemma struct_pack_pnq: "struct_pack_I 0xDBD60034 = Inr [0x34, 0x00, 0xD6, 0xDB]"
  by (simp add: struct_pack_I_def)

lemma encode_pnq_strings:
  "encode (lit ''/pnq'') = Inr (blit ''/pnq'')"
  "encode (lit ''/c'') = Inr (blit ''/c'')"
  "encode (icon_path (lit ''/c'') 0xDBD60034) = Inr (blit ''/c/grid/3688235060_icon.ico'')"
  by (simp_all add: icon_path_def str_def dec_digits.simps lit_def blit_def utf8_char_def)

lemma entry_pnq:
  "make_entry (lit ''/c'') 0 0xDBD60034 APPNAME (lit ''/pnq'') (lit ''/d'') =
     Inr (record_layout 0 0xDBD60034 (blit ''Minecraft Splitscreen'') (blit ''/pnq'')
            (blit ''/d'') (blit ''/c/grid/3688235060_icon.ico''))"
  "make_entry (lit ''/c'') 5 0xDBD60034 APPNAME (lit ''/pnq'') (lit ''/d'') =
     Inr (record_layout 5 0xDBD60034 (blit ''Minecraft Splitscreen'') (blit ''/pnq'')
            (blit ''/d'') (blit ''/c/grid/3688235060_icon.ico''))"
  using make_entry_record_layout
      [OF _ _ _ encode_APPNAME encode_pnq_strings(1) encode_example_strings(2)
        encode_pnq_strings(3), of 0]
    make_entry_record_layout
      [OF _ _ _ encode_APPNAME encode_pnq_strings(1) encode_example_strings(2)
        encode_pnq_strings(3), of 5]
  by simp_all

text \<open>
  In a record made for the path \<open>"/pnq"\<close> the scan finds the index and then the digit 4:
  the zero byte that ends the field name \<open>appid\<close>, the first byte \<open>0x34\<close> of the
  identifier and its second byte \<open>0x00\<close>.
\<close>

lemma findall_new_data_pnq:
  assumes "endswith B [8, 8]"
    and "take (length B - 2) B = [] \<or> \<not> is_digit (last (take (length B - 2) B))"
    and "0 \<le> i"
    and "make_entry (lit ''/c'') i 0xDBD60034 APPNAME (lit ''/pnq'') (lit ''/d'') = Inr R"
  shows "findall (new_data B R) = findall B @ [map of_nat (str i), [0x34]]"
  using findall_new_data [OF assms struct_pack_pnq encode_APPNAME encode_pnq_strings(1)
      encode_example_strings(2) encode_pnq_strings(2)]
  by (simp add: blit_def scan_eval)

lemma next_index_new_data_pnq:
  assumes "endswith B [8, 8]"
    and "take (length B - 2) B = [] \<or> \<not> is_digit (last (take (length B - 2) B))"
    and "0 \<le> i"
    and "make_entry (lit ''/c'') i 0xDBD60034 APPNAME (lit ''/pnq'') (lit ''/d'') = Inr R"
  shows "next_index (new_data B R) = 5"
  using findall_new_data_pnq [OF assms]
  by (simp add: next_index_def get_latest_index_def int_of_bytes_def)

lemma skeleton_before_terminator:
  "take (length skeleton - 2) skeleton = []
     \<or> \<not> is_digit (last (take (length skeleton - 2) skeleton))"
  by (simp add: skeleton_bytes is_digit_def)

lemma findall_skeleton: "findall skeleton = []"
  by (simp add: skeleton_def blit_def scan_eval)

text \<open>
  C6 does not hold of the code. The script computes, for the executable path \<open>"/pnq"\<close>,
  the identifier \<open>0xDBD60034\<close>, packed as \<open>34 00 D6 DB\<close>. Inserted into the skeleton, the
  record with index 0 built from it gives the next index 5 and not 1: \<open>get_latest_index\<close>
  returns 4, read from the bytes of the identifier, where the highest index of a shortcut in
  the file, which its documentation says it finds, is 0. With the start directory \<open>"7"\<close>
  the next index is 8.
\<close>

theorem next_index_after_insert_failing_input:
  "appid APPNAME (lit ''/pnq'') = Inr 0xDBD60034
   \<and> struct_pack_I 0xDBD60034 = Inr [0x34, 0x00, 0xD6, 0xDB]
   \<and> endswith skeleton [8, 8]
   \<and> make_entry (lit ''/c'') 0 0xDBD60034 APPNAME (lit ''/pnq'') (lit ''/d'') =
       Inr (record_layout 0 0xDBD60034 (blit ''Minecraft Splitscreen'') (blit ''/pnq'')
              (blit ''/d'') (blit ''/c/grid/3688235060_icon.ico''))
   \<and> findall (new_data skeleton
         (record_layout 0 0xDBD60034 (blit ''Minecraft Splitscreen'') (blit ''/pnq'')
            (blit ''/d'') (blit ''/c/grid/3688235060_icon.ico''))) = [[0x30], [0x34]]
   \<and> get_latest_index (new_data skeleton
         (record_layout 0 0xDBD60034 (blit ''Minecraft Splitscreen'') (blit ''/pnq'')
            (blit ''/d'') (blit ''/c/grid/3688235060_icon.ico''))) = 4
   \<and> next_index (new_data skeleton
         (record_layout 0 0xDBD60034 (blit ''Minecraft Splitscreen'') (blit ''/pnq'')
            (blit ''/d'') (blit ''/c/grid/3688235060_icon.ico''))) = 5
   \<and> (5 :: int) \<noteq> 0 + 1
   \<and> make_entry (lit ''/c'') 0 0xC8F9E060 APPNAME (lit ''/r'') (lit ''7'') =
       Inr (record_layout 0 0xC8F9E060 (blit ''Minecraft Splitscreen'') (blit ''/r'')
              (blit ''7'') (blit ''/c/grid/3371819104_icon.ico''))
   \<and> next_index (new_data skeleton
         (record_layout 0 0xC8F9E060 (blit ''Minecraft Splitscreen'') (blit ''/r'')
            (blit ''7'') (blit ''/c/grid/3371819104_icon.ico''))) = 8
   \<and> (8 :: int) \<noteq> 0 + 1"
proof -
  have f: "findall (new_data skeleton
         (record_layout 0 0xDBD60034 (blit ''Minecraft Splitscreen'') (blit ''/pnq'')
            (blit ''/d'') (blit ''/c/grid/3688235060_icon.ico''))) = [[0x30], [0x34]]"
    using findall_new_data_pnq [OF endswith_skeleton skeleton_before_terminator _ entry_pnq(1)]
    by (simp add: findall_skeleton str_def dec_digits.simps)
  then have g: "get_latest_index (new_data skeleton
         (record_layout 0 0xDBD60034 (blit ''Minecraft Splitscreen'') (blit ''/pnq'')
            (blit ''/d'') (blit ''/c/grid/3688235060_icon.ico''))) = 4"
    by (simp add: get_latest_index_def int_of_bytes_def)
  then have n: "next_index (new_data skeleton
         (record_layout 0 0xDBD60034 (blit ''Minecraft Splitscreen'') (blit ''/pnq'')
            (blit ''/d'') (blit ''/c/grid/3688235060_icon.ico''))) = 5"
    by (simp add: next_index_def)
  from appid_pnq struct_pack_pnq endswith_skeleton entry_pnq(1) f g n example_entry_7 example_7
  show ?thesis by simp
qed

section \<open>The indices of repeated runs\<close>

lemma run_first_pnq:
  "run (lit ''/c'') (lit ''/pnq'') (lit ''/d'')
       \<lparr>vdf = None, config_dir_exists = False, writes = []\<rparr> =
     (write_file
        (new_data skeleton
           (record_layout 0 0xDBD60034 (blit ''Minecraft Splitscreen'') (blit ''/pnq'')
              (blit ''/d'') (blit ''/c/grid/3688235060_icon.ico'')))
        (write_file skeleton \<lparr>vdf = None, config_dir_exists = True, writes = []\<rparr>),
      Added 0 0xDBD60034)"
proof -
  define w0 where "w0 = \<lparr>vdf = None, config_dir_exists = False, writes = []\<rparr>"
  have o: "open_shortcuts w0 =
      (write_file skeleton \<lparr>vdf = None, config_dir_exists = True, writes = []\<rparr>, skeleton)"
    by (simp add: open_shortcuts_def w0_def)
  have "make_entry (lit ''/c'') (next_index skeleton) 0xDBD60034 APPNAME (lit ''/pnq'') (lit ''/d'')
      = Inr (record_layout 0 0xDBD60034 (blit ''Minecraft Splitscreen'') (blit ''/pnq'')
              (blit ''/d'') (blit ''/c/grid/3688235060_icon.ico''))"
    unfolding next_index_skeleton by (rule entry_pnq(1))
  with o appid_pnq have "run (lit ''/c'') (lit ''/pnq'') (lit ''/d'') w0 =
      (write_file (new_data skeleton (record_layout 0 0xDBD60034 (blit ''Minecraft Splitscreen'')
           (blit ''/pnq'') (blit ''/d'') (blit ''/c/grid/3688235060_icon.ico'')))
         (write_file skeleton \<lparr>vdf = None, config_dir_exists = True, writes = []\<rparr>),
       Added (next_index skeleton) 0xDBD60034)"
    using endswith_skeleton by (rule run_AddedI)
  then show ?thesis
    by (simp add: next_index_skeleton w0_def)
qed

text \<open>
  C10 does not hold of the code, for the reason C6 does not. Started without a file and run
  three times with the executable path \<open>"/pnq"\<close>, the script adds records with the indices
  0, 5 and 5: the indices are not consecutive, and the second and the third record are the
  same bytes. With the start directory \<open>"7"\<close> two runs add the indices 0 and 8. The
  identifier is the same in every run and each run adds one record, as the claim says.
\<close>

theorem register_twice_failing_input:
  "snd (run (lit ''/c'') (lit ''/pnq'') (lit ''/d'')
          \<lparr>vdf = None, config_dir_exists = False, writes = []\<rparr>) = Added 0 0xDBD60034
   \<and> snd (run (lit ''/c'') (lit ''/pnq'') (lit ''/d'')
          (fst (run (lit ''/c'') (lit ''/pnq'') (lit ''/d'')
                  \<lparr>vdf = None, config_dir_exists = False, writes = []\<rparr>))) = Added 5 0xDBD60034
   \<and> snd (run (lit ''/c'') (lit ''/pnq'') (lit ''/d'')
          (fst (run (lit ''/c'') (lit ''/pnq'') (lit ''/d'')
             (fst (run (lit ''/c'') (lit ''/pnq'') (lit ''/d'')
                     \<lparr>vdf = None, config_dir_exists = False, writes = []\<rparr>))))) = Added 5 0xDBD60034
   \<and> vdf (fst (run (lit ''/c'') (lit ''/pnq'') (lit ''/d'')
          (fst (run (lit ''/c'') (lit ''/pnq'') (lit ''/d'')
             (fst (run (lit ''/c'') (lit ''/pnq'') (lit ''/d'')
                     \<lparr>vdf = None, config_dir_exists = False, writes = []\<rparr>)))))) =
       Some (take 11 skeleton
             @ record_layout 0 0xDBD60034 (blit ''Minecraft Splitscreen'') (blit ''/pnq'')
                 (blit ''/d'') (blit ''/c/grid/3688235060_icon.ico'')
             @ record_layout 5 0xDBD60034 (blit ''Minecraft Splitscreen'') (blit ''/pnq'')
                 (blit ''/d'') (blit ''/c/grid/3688235060_icon.ico'')
             @ record_layout 5 0xDBD60034 (blit ''Minecraft Splitscreen'') (blit ''/pnq'')
                 (blit ''/d'') (blit ''/c/grid/3688235060_icon.ico'')
             @ [8, 8])
   \<and> (5 :: int) \<noteq> 0 + 1 \<and> (5 :: int) \<noteq> 5 + 1
   \<and> snd (run (lit ''/c'') (lit ''/r'') (lit ''7'')
          \<lparr>vdf = None, config_dir_exists = False, writes = []\<rparr>) = Added 0 0xC8F9E060
   \<and> snd (run (lit ''/c'') (lit ''/r'') (lit ''7'')
          (fst (run (lit ''/c'') (lit ''/r'') (lit ''7'')
                  \<lparr>vdf = None, config_dir_exists = False, writes = []\<rparr>))) = Added 8 0xC8F9E060
   \<and> (8 :: int) \<noteq> 0 + 1"
proof -
  define w0 where "w0 = \<lparr>vdf = None, config_dir_exists = False, writes = []\<rparr>"
  define R0 where "R0 = record_layout 0 0xDBD60034 (blit ''Minecraft Splitscreen'') (blit ''/pnq'')
                 (blit ''/d'') (blit ''/c/grid/3688235060_icon.ico'')"
  define R5 where "R5 = record_layout 5 0xDBD60034 (blit ''Minecraft Splitscreen'') (blit ''/pnq'')
                 (blit ''/d'') (blit ''/c/grid/3688235060_icon.ico'')"
  define w1 where "w1 = fst (run (lit ''/c'') (lit ''/pnq'') (lit ''/d'') w0)"
  define w2 where "w2 = fst (run (lit ''/c'') (lit ''/pnq'') (lit ''/d'') w1)"
  define B1 where "B1 = new_data skeleton R0"
  define B2 where "B2 = new_data B1 R5"
  note m0 = entry_pnq(1) [folded R0_def] and m5 = entry_pnq(2) [folded R5_def]
  have r1: "run (lit ''/c'') (lit ''/pnq'') (lit ''/d'') w0 =
      (write_file B1 (write_file skeleton \<lparr>vdf = None, config_dir_exists = True, writes = []\<rparr>),
       Added 0 0xDBD60034)"
    unfolding w0_def B1_def R0_def by (rule run_first_pnq)
  then have v1: "vdf w1 = Some B1"
    by (simp add: w1_def write_file_def)
  then have o1: "open_shortcuts w1 = (w1, B1)"
    by (simp add: open_shortcuts_def)
  have t1: "endswith B1 [8, 8]"
    unfolding B1_def by (rule endswith_new_data)
  have n1: "next_index B1 = 5"
    unfolding B1_def
    using endswith_skeleton skeleton_before_terminator _ m0
    by (rule next_index_new_data_pnq) simp
  have "make_entry (lit ''/c'') (next_index B1) 0xDBD60034 APPNAME (lit ''/pnq'') (lit ''/d'') = Inr R5"
    unfolding n1 by (rule m5)
  with o1 appid_pnq have "run (lit ''/c'') (lit ''/pnq'') (lit ''/d'') w1 =
      (write_file (new_data B1 R5) w1, Added (next_index B1) 0xDBD60034)"
    using t1 by (rule run_AddedI)
  then have r2: "run (lit ''/c'') (lit ''/pnq'') (lit ''/d'') w1 = (write_file B2 w1, Added 5 0xDBD60034)"
    by (simp add: n1 B2_def)
  then have v2: "vdf w2 = Some B2"
    by (simp add: w2_def write_file_def)
  then have o2: "open_shortcuts w2 = (w2, B2)"
    by (simp add: open_shortcuts_def)
  have t2: "endswith B2 [8, 8]"
    unfolding B2_def by (rule endswith_new_data)
  have "\<not> is_digit (last (take (length B1 - 2) B1))"
    unfolding B1_def using m0 by (rule new_data_before_terminator)
  then have b1: "take (length B1 - 2) B1 = [] \<or> \<not> is_digit (last (take (length B1 - 2) B1))" ..
  have n2: "next_index B2 = 5"
    unfolding B2_def using t1 b1 _ m5 by (rule next_index_new_data_pnq) simp
  have "make_entry (lit ''/c'') (next_index B2) 0xDBD60034 APPNAME (lit ''/pnq'') (lit ''/d'') = Inr R5"
    unfolding n2 by (rule m5)
  with o2 appid_pnq have "run (lit ''/c'') (lit ''/pnq'') (lit ''/d'') w2 =
      (write_file (new_data B2 R5) w2, Added (next_index B2) 0xDBD60034)"
    using t2 by (rule run_AddedI)
  then have r3: "run (lit ''/c'') (lit ''/pnq'') (lit ''/d'') w2 =
      (write_file (new_data B2 R5) w2, Added 5 0xDBD60034)"
    by (simp add: n2)
  have "new_data B2 R5 = take 11 skeleton @ R0 @ R5 @ R5 @ [8, 8]"
    by (simp add: B2_def B1_def new_data_def skeleton_bytes)
  with r3 have v3: "vdf (fst (run (lit ''/c'') (lit ''/pnq'') (lit ''/d'') w2)) =
      Some (take 11 skeleton @ R0 @ R5 @ R5 @ [8, 8])"
    by (simp add: write_file_def)
  have 1: "snd (run (lit ''/c'') (lit ''/pnq'') (lit ''/d'') w0) = Added 0 0xDBD60034"
    by (simp add: r1)
  have 2: "snd (run (lit ''/c'') (lit ''/pnq'') (lit ''/d'') w1) = Added 5 0xDBD60034"
    by (simp add: r2)
  have 3: "snd (run (lit ''/c'') (lit ''/pnq'') (lit ''/d'') w2) = Added 5 0xDBD60034"
    by (simp add: r3)
  define u0 where "u0 = \<lparr>vdf = None, config_dir_exists = False, writes = []\<rparr>"
  define R7 where "R7 = record_layout 0 0xC8F9E060 (blit ''Minecraft Splitscreen'') (blit ''/r'')
            (blit ''7'') (blit ''/c/grid/3371819104_icon.ico'')"
  have o: "open_shortcuts u0 = (write_file skeleton (u0\<lparr>config_dir_exists := True\<rparr>), skeleton)"
    by (simp add: open_shortcuts_def u0_def)
  have m: "make_entry (lit ''/c'') (next_index skeleton) 0xC8F9E060 APPNAME (lit ''/r'') (lit ''7'')
      = Inr R7"
    unfolding R7_def next_index_skeleton by (rule example_entry_7)
  have q1: "run (lit ''/c'') (lit ''/r'') (lit ''7'') u0 =
      (write_file (new_data skeleton R7) (write_file skeleton (u0\<lparr>config_dir_exists := True\<rparr>)),
       Added (next_index skeleton) 0xC8F9E060)"
    using o appid_example m endswith_skeleton by (rule run_AddedI)
  then have 4: "snd (run (lit ''/c'') (lit ''/r'') (lit ''7'') u0) = Added 0 0xC8F9E060"
    by (simp add: next_index_skeleton)
  from q1 have "snd (run (lit ''/c'') (lit ''/r'') (lit ''7'') u0) = Added (next_index skeleton) 0xC8F9E060"
    by simp
  from run_twice [OF this refl] o q1
  obtain n' where "snd (run (lit ''/c'') (lit ''/r'') (lit ''7'')
      (fst (run (lit ''/c'') (lit ''/r'') (lit ''7'') u0))) = Added n' 0xC8F9E060"
    and "n' = next_index (new_data skeleton R7)"
    using m by auto
  then have 5: "snd (run (lit ''/c'') (lit ''/r'') (lit ''7'')
      (fst (run (lit ''/c'') (lit ''/r'') (lit ''7'') u0))) = Added 8 0xC8F9E060"
    using example_7 by (simp add: R7_def)
  from 1 2 3 v3 4 5 show ?thesis
    unfolding w2_def w1_def w0_def u0_def R0_def R5_def by simp
qed

end
